theory Spec2Isabelle
  imports Complex_Main "HOL-Library.Word"
begin

unbundle bit_operations_syntax

section \<open>Exceptions\<close>

datatype js_error = Error string | TypeError | ZeroDivisor

section \<open>Seeded random numbers (src/utils/random.ts)\<close>

text \<open>
  JavaScript numbers are modelled as reals wherever the source computes with fractions, and
  as 32-bit words wherever it applies the integer operators \<open>>>>\<close>, \<open>|\<close>, \<open>^\<close> and
  \<open>Math.imul\<close>, all of which reduce their operands modulo \<open>2 ^ 32\<close>.
\<close>

type_synonym u32 = "32 word"

text \<open>\<open>seed >>> 0\<close>: truncate towards zero, then reduce modulo \<open>2 ^ 32\<close>.\<close>

definition toUint32 :: "real \<Rightarrow> u32" where
  "toUint32 v = word_of_int (if v < 0 then - \<lfloor>- v\<rfloor> else \<lfloor>v\<rfloor>)"

definition imul :: "u32 \<Rightarrow> u32 \<Rightarrow> u32" where
  "imul a b = a * b"

text \<open>
  \<open>createSeededRandom\<close> returns a closure over the one mutable variable \<open>s\<close>. The closure
  is modelled by the value of \<open>s\<close>, and a call of it by \<open>seededRandom_call\<close>, which returns
  the number produced together with the new value of \<open>s\<close>.
\<close>

definition createSeededRandom :: "real \<Rightarrow> u32" where
  "createSeededRandom seed = toUint32 seed"

definition seededRandom_call :: "u32 \<Rightarrow> real \<times> u32" where
  "seededRandom_call s0 =
     (let s = s0 + 0x6d2b79f5;
          t = imul (s XOR drop_bit 15 s) (1 OR s);
          t = t XOR (t + imul (t XOR drop_bit 7 t) (61 OR t))
      in (real (unat (t XOR drop_bit 14 t)) / 4294967296, s))"

text \<open>The value of \<open>s\<close> after \<open>k\<close> calls, and the number the next call produces.\<close>

fun seededRandom_state :: "u32 \<Rightarrow> nat \<Rightarrow> u32" where
  "seededRandom_state s 0 = s"
| "seededRandom_state s (Suc k) = snd (seededRandom_call (seededRandom_state s k))"

definition seededRandom_output :: "real \<Rightarrow> nat \<Rightarrow> real" where
  "seededRandom_output seed k =
     fst (seededRandom_call (seededRandom_state (createSeededRandom seed) k))"

definition randomRange :: "('g \<Rightarrow> real \<times> 'g) \<Rightarrow> 'g \<Rightarrow> real \<Rightarrow> real \<Rightarrow> real \<times> 'g" where
  "randomRange rand g lo hi = (let (r, g') = rand g in (lo + (hi - lo) * r, g'))"

text \<open>
  \<open>pickRandom\<close> takes any generator: a function from the generator's hidden state to the
  number it returns and its next state. Reading \<open>items[idx]\<close> outside the array gives
  \<open>undefined\<close> in JavaScript, here \<open>None\<close>.
\<close>

definition js_index :: "'a list \<Rightarrow> int \<Rightarrow> 'a option" where
  "js_index items idx =
     (if 0 \<le> idx \<and> idx < int (length items) then Some (items ! nat idx) else None)"

definition pickRandom :: "('g \<Rightarrow> real \<times> 'g) \<Rightarrow> 'g \<Rightarrow> 'a list \<Rightarrow> js_error + ('a option \<times> 'g)" where
  "pickRandom rand g items =
     (if length items = 0 then Inl (Error ''Cannot pick from an empty array'')
      else let (r, g') = rand g;
               idx = \<lfloor>r * real (length items)\<rfloor>
           in Inr (js_index items idx, g'))"

section \<open>Numbers and vectors\<close>

text \<open>
  The controller computes with JavaScript numbers, modelled as reals: every operation is
  taken exactly, so the rounding of the doubles and their overflow to \<open>Infinity\<close> and
  \<open>NaN\<close> are outside this model (the section on rounded arithmetic below repeats the
  returned law with the rounding put back).
  Dividing by zero gives \<open>Infinity\<close> or \<open>NaN\<close> in the program and no real number; the
  model marks that one event with the error value \<open>ZeroDivisor\<close>, so that its absence is
  a statement about the program and not a convention of the logic. \<open>ZeroDivisor\<close> says
  nothing about results that are not finite for another reason. Reading a field of
  \<open>undefined\<close> throws \<open>TypeError\<close>.
\<close>

definition bindE :: "js_error + 'a \<Rightarrow> ('a \<Rightarrow> js_error + 'b) \<Rightarrow> js_error + 'b" where
  "bindE m f = (case m of Inl e \<Rightarrow> Inl e | Inr v \<Rightarrow> f v)"

definition js_div :: "real \<Rightarrow> real \<Rightarrow> js_error + real" where
  "js_div a d = (if d = 0 then Inl ZeroDivisor else Inr (a / d))"

text \<open>\<open>a || d\<close> on numbers: \<open>d\<close> when \<open>a\<close> is zero.\<close>

definition or_else :: "real \<Rightarrow> real \<Rightarrow> real" where
  "or_else a d = (if a = 0 then d else a)"

definition hypot2 :: "real \<Rightarrow> real \<Rightarrow> real" where
  "hypot2 a b = sqrt (a\<^sup>2 + b\<^sup>2)"

definition hypot3 :: "real \<Rightarrow> real \<Rightarrow> real \<Rightarrow> real" where
  "hypot3 a b c = sqrt (a\<^sup>2 + b\<^sup>2 + c\<^sup>2)"

text \<open>
  \<open>Math.atan2(b, a)\<close>, the angle of the point \<open>(a, b)\<close>. The program's zeros carry a sign
  and the reals have one zero, so the signs are arguments of their own: \<open>fst zeros\<close> says
  that \<open>b\<close>, when it is zero, is the negative zero, and \<open>snd zeros\<close> the same of \<open>a\<close>.
  They decide between \<open>\<pi>\<close> and \<open>-\<pi>\<close> on the negative half of the first axis, and
  between \<open>0\<close>, \<open>\<pi>\<close> and \<open>-\<pi>\<close> at the origin.
\<close>

definition atan2 :: "bool \<times> bool \<Rightarrow> real \<Rightarrow> real \<Rightarrow> real" where
  "atan2 zeros b a =
     (if 0 < a then arctan (b / a)
      else if a < 0 then
        (if 0 < b then arctan (b / a) + pi
         else if b < 0 then arctan (b / a) - pi
         else if fst zeros then - pi else pi)
      else if 0 < b then pi / 2
      else if b < 0 then - (pi / 2)
      else if snd zeros then (if fst zeros then - pi else pi)
      else 0)"

text \<open>The objects \<open>{ x, y, z }\<close>.\<close>

record vec3 =
  vec_x :: real
  vec_y :: real
  vec_z :: real

definition vec :: "real \<Rightarrow> real \<Rightarrow> real \<Rightarrow> vec3" where
  "vec a b c = \<lparr>vec_x = a, vec_y = b, vec_z = c\<rparr>"

text \<open>Three divisions by the same divisor, as in \<open>cx /= mSum; cy /= mSum; cz /= mSum\<close>.\<close>

definition vec_div :: "vec3 \<Rightarrow> real \<Rightarrow> js_error + vec3" where
  "vec_div v d =
     bindE (js_div (vec_x v) d) (\<lambda>a.
     bindE (js_div (vec_y v) d) (\<lambda>b.
     bindE (js_div (vec_z v) d) (\<lambda>c. Inr (vec a b c))))"

definition magnitude :: "vec3 \<Rightarrow> real" where
  "magnitude v = hypot3 (vec_x v) (vec_y v) (vec_z v)"

definition scale :: "real \<Rightarrow> vec3 \<Rightarrow> vec3" where
  "scale k v = vec (k * vec_x v) (k * vec_y v) (k * vec_z v)"

section \<open>Bodies and the Rosette controller (makeRosetteController)\<close>

text \<open>
  Of a \<open>BodyState\<close> the controller reads the name, the mass, the position and the velocity;
  the cosmetic fields live in the record's extension.
\<close>

record BodyState =
  name :: string
  mass :: real
  position :: vec3
  velocity :: vec3

text \<open>\<open>xs[i]\<close> followed by a field access: \<open>TypeError\<close> outside the array.\<close>

definition js_get :: "'a list \<Rightarrow> nat \<Rightarrow> js_error + 'a" where
  "js_get xs i = (if i < length xs then Inr (xs ! i) else Inl TypeError)"

text \<open>\<open>for (const i of is) body\<close>, stopping at the first exception.\<close>

fun for_of :: "'i list \<Rightarrow> ('i \<Rightarrow> 's \<Rightarrow> js_error + 's) \<Rightarrow> 's \<Rightarrow> js_error + 's" where
  "for_of [] body s = Inr s"
| "for_of (i # is) body s = (case body i s of Inl e \<Rightarrow> Inl e | Inr s' \<Rightarrow> for_of is body s')"

definition startsWith :: "string \<Rightarrow> string \<Rightarrow> bool" where
  "startsWith str pre = (take (length pre) str = pre)"

text \<open>The constants the returned law closes over.\<close>

record controller =
  petalIdx :: "nat list"
  rStar :: real
  omegaStar :: real
  k_r :: real
  k_dr :: real
  k_t :: real
  k_dt :: real
  k_c :: real
  a_max :: real

definition petalIdx_of :: "BodyState list \<Rightarrow> nat list" where
  "petalIdx_of initialBodies =
     map snd (filter (\<lambda>(b, i). startsWith (name b) ''Petal'')
                     (zip initialBodies [0 ..< length initialBodies]))"

definition rStar_step :: "BodyState list \<Rightarrow> nat \<Rightarrow> real \<times> real \<Rightarrow> js_error + real \<times> real" where
  "rStar_step initialBodies i = (\<lambda>(mSum, mrSum).
     bindE (js_get initialBodies i) (\<lambda>b.
       let r = hypot3 (vec_x (position b)) (vec_y (position b)) (vec_z (position b))
       in Inr (mSum + mass b, mrSum + mass b * r)))"

definition rStar_of :: "BodyState list \<Rightarrow> nat list \<Rightarrow> js_error + real" where
  "rStar_of initialBodies idx =
     bindE (for_of idx (rStar_step initialBodies) (0, 0)) (\<lambda>(mSum, mrSum).
       if mSum > 0 then js_div mrSum mSum else Inr 12)"

text \<open>
  \<open>zeros i\<close> gives the signs of the zeros of \<open>position.y\<close> and \<open>position.x\<close> of the
  initial body \<open>i\<close>, which only \<open>Math.atan2\<close> can tell apart.
\<close>

definition omegaStar_step ::
  "(nat \<Rightarrow> bool \<times> bool) \<Rightarrow> BodyState list \<Rightarrow> nat \<Rightarrow> real \<times> real \<Rightarrow> js_error + real \<times> real" where
  "omegaStar_step zeros initialBodies i = (\<lambda>(mSum, sum).
     bindE (js_get initialBodies i) (\<lambda>b.
       let r = or_else (hypot2 (vec_x (position b)) (vec_y (position b))) (1 / 10 ^ 6);
           theta = atan2 (zeros i) (vec_y (position b)) (vec_x (position b));
           vt = - vec_x (velocity b) * sin theta + vec_y (velocity b) * cos theta
       in bindE (js_div vt r) (\<lambda>q. Inr (mSum + mass b, sum + mass b * q))))"

definition omegaStar_of ::
  "(nat \<Rightarrow> bool \<times> bool) \<Rightarrow> BodyState list \<Rightarrow> nat list \<Rightarrow> js_error + real" where
  "omegaStar_of zeros initialBodies idx =
     bindE (for_of idx (omegaStar_step zeros initialBodies) (0, 0)) (\<lambda>(mSum, sum).
       if mSum > 0 then js_div sum mSum else Inr 0)"

definition makeRosetteController ::
  "(nat \<Rightarrow> bool \<times> bool) \<Rightarrow> BodyState list \<Rightarrow> js_error + controller" where
  "makeRosetteController zeros initialBodies =
     (let idx = petalIdx_of initialBodies in
      bindE (rStar_of initialBodies idx) (\<lambda>rS.
      bindE (omegaStar_of zeros initialBodies idx) (\<lambda>oS.
        Inr \<lparr>petalIdx = idx, rStar = rS, omegaStar = oS,
             k_r = 8 / 100, k_dr = 18 / 100, k_t = 12 / 100, k_dt = 8 / 100,
             k_c = 2 / 100, a_max = 4 / 100\<rparr>)))"

subsection \<open>The returned law\<close>

text \<open>First loop: total mass, and mass-weighted sums of positions and velocities.\<close>

definition centroid_step ::
  "BodyState list \<Rightarrow> nat \<Rightarrow> real \<times> vec3 \<times> vec3 \<Rightarrow> js_error + real \<times> vec3 \<times> vec3" where
  "centroid_step state i = (\<lambda>(mSum, c, cv).
     bindE (js_get state i) (\<lambda>b.
       Inr (mSum + mass b,
            vec (vec_x c + mass b * vec_x (position b))
                (vec_y c + mass b * vec_y (position b))
                (vec_z c + mass b * vec_z (position b)),
            vec (vec_x cv + mass b * vec_x (velocity b))
                (vec_y cv + mass b * vec_y (velocity b))
                (vec_z cv + mass b * vec_z (velocity b)))))"

text \<open>Second loop: angular momentum about the centroid.\<close>

definition momentum_step :: "BodyState list \<Rightarrow> vec3 \<Rightarrow> vec3 \<Rightarrow> nat \<Rightarrow> vec3 \<Rightarrow> js_error + vec3" where
  "momentum_step state c cv i L =
     bindE (js_get state i) (\<lambda>b.
       let rx = vec_x (position b) - vec_x c;
           ry = vec_y (position b) - vec_y c;
           rz = vec_z (position b) - vec_z c;
           vx = vec_x (velocity b) - vec_x cv;
           vy = vec_y (velocity b) - vec_y cv;
           vz = vec_z (velocity b) - vec_z cv
       in Inr (vec (vec_x L + (ry * vz - rz * vy) * mass b)
                   (vec_y L + (rz * vx - rx * vz) * mass b)
                   (vec_z L + (rx * vy - ry * vx) * mass b)))"

text \<open>Third loop, body: the acceleration before the cap (lines 163 to 185).\<close>

definition unclamped_correction ::
  "controller \<Rightarrow> vec3 \<Rightarrow> vec3 \<Rightarrow> vec3 \<Rightarrow> BodyState \<Rightarrow> js_error + vec3" where
  "unclamped_correction C c cv n b =
     (let rx = vec_x (position b) - vec_x c;
          ry = vec_y (position b) - vec_y c;
          rz = vec_z (position b) - vec_z c;
          vx = vec_x (velocity b) - vec_x cv;
          vy = vec_y (velocity b) - vec_y cv;
          vz = vec_z (velocity b) - vec_z cv;
          r = or_else (hypot3 rx ry rz) (1 / 10 ^ 9)
      in bindE (vec_div (vec rx ry rz) r) (\<lambda>r_hat.
         let tx0 = vec_y n * vec_z r_hat - vec_z n * vec_y r_hat;
             ty0 = vec_z n * vec_x r_hat - vec_x n * vec_z r_hat;
             tz0 = vec_x n * vec_y r_hat - vec_y n * vec_x r_hat;
             t_norm = or_else (hypot3 tx0 ty0 tz0) (1 / 10 ^ 9)
         in bindE (vec_div (vec tx0 ty0 tz0) t_norm) (\<lambda>t_hat.
            let vr = vx * vec_x r_hat + vy * vec_y r_hat + vz * vec_z r_hat;
                vt = vx * vec_x t_hat + vy * vec_y t_hat + vz * vec_z t_hat;
                a_r = - k_r C * (r - rStar C) - k_dr C * vr;
                a_t = - k_t C * (vt - omegaStar C * r) - k_dt C * vt;
                ax = a_r * vec_x r_hat + a_t * vec_x t_hat - k_c C * vx;
                ay = a_r * vec_y r_hat + a_t * vec_y t_hat - k_c C * vy;
                az = a_r * vec_z r_hat + a_t * vec_z t_hat - k_c C * vz
            in Inr (vec ax ay az))))"

text \<open>
  The cap (lines 187 to 191), with the division and the three products exact; with their
  rounding it is \<open>clamp_correction_fl\<close> below.
\<close>

definition clamp_correction :: "controller \<Rightarrow> vec3 \<Rightarrow> js_error + vec3" where
  "clamp_correction C a =
     (let aN = hypot3 (vec_x a) (vec_y a) (vec_z a)
      in if aN > a_max C
         then bindE (js_div (a_max C) aN) (\<lambda>s. Inr (vec (vec_x a * s) (vec_y a * s) (vec_z a * s)))
         else Inr a)"

text \<open>
  \<open>acc\<close> is built by \<open>Array.from\<close> with a factory, so each entry is an object of its own
  and the three assignments to \<open>acc[i]\<close> replace entry \<open>i\<close> and nothing else.
\<close>

definition correction_step ::
  "controller \<Rightarrow> BodyState list \<Rightarrow> vec3 \<Rightarrow> vec3 \<Rightarrow> vec3 \<Rightarrow> nat \<Rightarrow> vec3 list \<Rightarrow> js_error + vec3 list" where
  "correction_step C state c cv n i acc =
     bindE (js_get state i) (\<lambda>b.
     bindE (unclamped_correction C c cv n b) (\<lambda>a.
     bindE (clamp_correction C a) (\<lambda>a'.
     bindE (js_get acc i) (\<lambda>_. Inr (acc[i := a'])))))"

text \<open>
  Lines 133 to 160: the centroid, its velocity and the unit normal. \<open>None\<close> is the early
  return of line 145, taken when the total mass is not positive.
\<close>

definition ring_frame :: "nat list \<Rightarrow> BodyState list \<Rightarrow> js_error + (vec3 \<times> vec3 \<times> vec3) option" where
  "ring_frame idx state =
     bindE (for_of idx (centroid_step state) (0, vec 0 0 0, vec 0 0 0))
       (\<lambda>(mSum, csum, cvsum).
     if mSum \<le> 0 then Inr None
     else
       bindE (vec_div csum mSum) (\<lambda>c.
       bindE (vec_div cvsum mSum) (\<lambda>cv.
       bindE (for_of idx (momentum_step state c cv) (vec 0 0 0)) (\<lambda>L.
       let Ln = or_else (hypot3 (vec_x L) (vec_y L) (vec_z L)) 1 in
       bindE (vec_div L Ln) (\<lambda>n. Inr (Some (c, cv, n)))))))"

definition rosetteLaw :: "controller \<Rightarrow> BodyState list \<Rightarrow> real \<Rightarrow> js_error + vec3 list" where
  "rosetteLaw C state t =
     (let n = length state;
          acc = replicate n (vec 0 0 0)
      in if length (petalIdx C) = 0 then Inr acc
         else
           bindE (ring_frame (petalIdx C) state) (\<lambda>frame.
             case frame of
               None \<Rightarrow> Inr acc
             | Some (c, cv, n) \<Rightarrow> for_of (petalIdx C) (correction_step C state c cv n) acc))"

section \<open>Quantities named by the specification\<close>

text \<open>
  The closed forms in which the claims speak of the ring. The members are the bodies whose
  name starts with \<open>Petal\<close>; \<open>tangential_velocity\<close> and \<open>planar_radius\<close> are the
  expressions \<open>vt\<close> and \<open>r\<close> of lines 111 to 113; the centroid, its velocity, the angular
  momentum and the normal are sums over the ring indices; \<open>pd_correction\<close> is the
  proportional-derivative formula written with vectors, \<open>clamped\<close> the cap. The theorems
  compare them with the loops above.
\<close>

definition ring_members :: "BodyState list \<Rightarrow> BodyState list" where
  "ring_members bodies = filter (\<lambda>b. startsWith (name b) ''Petal'') bodies"

definition tangential_velocity :: "bool \<times> bool \<Rightarrow> BodyState \<Rightarrow> real" where
  "tangential_velocity zs b =
     (let theta = atan2 zs (vec_y (position b)) (vec_x (position b))
      in - vec_x (velocity b) * sin theta + vec_y (velocity b) * cos theta)"

definition planar_radius :: "BodyState \<Rightarrow> real" where
  "planar_radius b = or_else (hypot2 (vec_x (position b)) (vec_y (position b))) (1 / 10 ^ 6)"


definition member_rate_sum :: "(nat \<Rightarrow> bool \<times> bool) \<Rightarrow> BodyState list \<Rightarrow> real" where
  "member_rate_sum zeros bodies =
     (\<Sum>i\<leftarrow>petalIdx_of bodies.
        mass (bodies ! i) * (tangential_velocity (zeros i) (bodies ! i) / planar_radius (bodies ! i)))"

definition ring_mass :: "BodyState list \<Rightarrow> nat list \<Rightarrow> real" where
  "ring_mass state idx = (\<Sum>i\<leftarrow>idx. mass (state ! i))"

definition weighted_sum :: "(BodyState \<Rightarrow> vec3) \<Rightarrow> BodyState list \<Rightarrow> nat list \<Rightarrow> vec3" where
  "weighted_sum f state idx =
     vec (\<Sum>i\<leftarrow>idx. mass (state ! i) * vec_x (f (state ! i)))
         (\<Sum>i\<leftarrow>idx. mass (state ! i) * vec_y (f (state ! i)))
         (\<Sum>i\<leftarrow>idx. mass (state ! i) * vec_z (f (state ! i)))"

definition ring_centroid :: "BodyState list \<Rightarrow> nat list \<Rightarrow> vec3" where
  "ring_centroid state idx = scale (1 / ring_mass state idx) (weighted_sum position state idx)"

definition ring_centroid_velocity :: "BodyState list \<Rightarrow> nat list \<Rightarrow> vec3" where
  "ring_centroid_velocity state idx = scale (1 / ring_mass state idx) (weighted_sum velocity state idx)"

definition vsub :: "vec3 \<Rightarrow> vec3 \<Rightarrow> vec3" where
  "vsub u v = vec (vec_x u - vec_x v) (vec_y u - vec_y v) (vec_z u - vec_z v)"

definition vadd :: "vec3 \<Rightarrow> vec3 \<Rightarrow> vec3" where
  "vadd u v = vec (vec_x u + vec_x v) (vec_y u + vec_y v) (vec_z u + vec_z v)"

definition dot :: "vec3 \<Rightarrow> vec3 \<Rightarrow> real" where
  "dot u v = vec_x u * vec_x v + vec_y u * vec_y v + vec_z u * vec_z v"

definition cross :: "vec3 \<Rightarrow> vec3 \<Rightarrow> vec3" where
  "cross u v = vec (vec_y u * vec_z v - vec_z u * vec_y v)
                   (vec_z u * vec_x v - vec_x u * vec_z v)
                   (vec_x u * vec_y v - vec_y u * vec_x v)"

definition ring_angular_momentum :: "BodyState list \<Rightarrow> nat list \<Rightarrow> vec3" where
  "ring_angular_momentum state idx =
     (let c = ring_centroid state idx; cv = ring_centroid_velocity state idx;
          l = (\<lambda>b. cross (vsub (position b) c) (vsub (velocity b) cv))
      in weighted_sum l state idx)"

definition ring_normal :: "BodyState list \<Rightarrow> nat list \<Rightarrow> vec3" where
  "ring_normal state idx =
     (let L = ring_angular_momentum state idx
      in scale (1 / or_else (magnitude L) 1) L)"

definition normalize :: "real \<Rightarrow> vec3 \<Rightarrow> vec3" where
  "normalize eps v = scale (1 / or_else (magnitude v) eps) v"

definition radial_distance :: "vec3 \<Rightarrow> BodyState \<Rightarrow> real" where
  "radial_distance c b = or_else (magnitude (vsub (position b) c)) (1 / 10 ^ 9)"

definition r_hat :: "vec3 \<Rightarrow> BodyState \<Rightarrow> vec3" where
  "r_hat c b = normalize (1 / 10 ^ 9) (vsub (position b) c)"

definition t_hat :: "vec3 \<Rightarrow> vec3 \<Rightarrow> BodyState \<Rightarrow> vec3" where
  "t_hat c n b = normalize (1 / 10 ^ 9) (cross n (r_hat c b))"

definition pd_correction :: "controller \<Rightarrow> vec3 \<Rightarrow> vec3 \<Rightarrow> vec3 \<Rightarrow> BodyState \<Rightarrow> vec3" where
  "pd_correction C c cv n b =
     (let r = radial_distance c b;
          v = vsub (velocity b) cv;
          v_r = dot v (r_hat c b);
          v_t = dot v (t_hat c n b);
          a_r = k_r C * (rStar C - r) - k_dr C * v_r;
          a_t = k_t C * (omegaStar C * r - v_t) - k_dt C * v_t
      in vsub (vadd (scale a_r (r_hat c b)) (scale a_t (t_hat c n b))) (scale (k_c C) v))"

definition clamped :: "real \<Rightarrow> vec3 \<Rightarrow> vec3" where
  "clamped cap a = (if cap < magnitude a then scale (cap / magnitude a) a else a)"

definition member_correction :: "controller \<Rightarrow> BodyState list \<Rightarrow> nat \<Rightarrow> vec3" where
  "member_correction C state i =
     clamped (a_max C)
       (pd_correction C (ring_centroid state (petalIdx C))
          (ring_centroid_velocity state (petalIdx C))
          (ring_normal state (petalIdx C)) (state ! i))"


section \<open>The returned law on the heap\<close>

text \<open>
  In the program a state is an array of references to body objects, whose positions and
  velocities are references to \<open>{ x, y, z }\<close> objects, and the law returns a fresh array of
  fresh \<open>{ x, y, z }\<close> objects that it fills in place. The heap keeps both kinds of object and
  the next unused address. The captured constants are \<open>const\<close> bindings that no statement
  of the law assigns; they are the immutable record \<open>controller\<close>.
\<close>

type_synonym addr = nat

record body_obj =
  obj_name :: string
  obj_mass :: real
  obj_position :: addr
  obj_velocity :: addr

record heap =
  vec_cells :: "addr \<Rightarrow> vec3 option"
  body_cells :: "addr \<Rightarrow> body_obj option"
  next_free :: addr

text \<open>Reading \<open>b.name\<close>, \<open>b.mass\<close>, \<open>b.position\<close> and \<open>b.velocity\<close> of the body at a reference.\<close>

definition body_value :: "heap \<Rightarrow> addr \<Rightarrow> BodyState" where
  "body_value h r =
     (let ob = the (body_cells h r)
      in \<lparr>name = obj_name ob, mass = obj_mass ob,
          position = the (vec_cells h (obj_position ob)),
          velocity = the (vec_cells h (obj_velocity ob))\<rparr>)"

definition snapshot :: "heap \<Rightarrow> addr list \<Rightarrow> BodyState list" where
  "snapshot h state = map (body_value h) state"

text \<open>\<open>Array.from({ length: n }, () => ({ x: 0, y: 0, z: 0 }))\<close>: one new object per entry.\<close>

definition new_vec :: "vec3 \<Rightarrow> heap \<Rightarrow> addr \<times> heap" where
  "new_vec v h =
     (next_free h, h\<lparr>vec_cells := (vec_cells h)(next_free h \<mapsto> v), next_free := Suc (next_free h)\<rparr>)"

fun array_from_zeros :: "nat \<Rightarrow> heap \<Rightarrow> addr list \<times> heap" where
  "array_from_zeros 0 h = ([], h)"
| "array_from_zeros (Suc k) h =
     (let (r, h1) = new_vec (vec 0 0 0) h;
          (rs, h2) = array_from_zeros k h1
      in (r # rs, h2))"

text \<open>\<open>acc[i].x = ax; acc[i].y = ay; acc[i].z = az\<close> on the object \<open>acc[i]\<close> refers to.\<close>

definition write_vec :: "addr \<Rightarrow> vec3 \<Rightarrow> heap \<Rightarrow> heap" where
  "write_vec r v h = h\<lparr>vec_cells := (vec_cells h)(r \<mapsto> v)\<rparr>"

definition correction_step_heap ::
  "controller \<Rightarrow> addr list \<Rightarrow> vec3 \<Rightarrow> vec3 \<Rightarrow> vec3 \<Rightarrow> addr list \<Rightarrow> nat \<Rightarrow> heap \<Rightarrow> js_error + heap" where
  "correction_step_heap C state c cv n acc i h =
     bindE (js_get (snapshot h state) i) (\<lambda>b.
     bindE (unclamped_correction C c cv n b) (\<lambda>a.
     bindE (clamp_correction C a) (\<lambda>a'.
     bindE (js_get acc i) (\<lambda>r. Inr (write_vec r a' h)))))"

text \<open>The loop over the ring with the heap as its state; an exception keeps the heap reached.\<close>

fun for_of_heap :: "nat list \<Rightarrow> (nat \<Rightarrow> heap \<Rightarrow> js_error + heap) \<Rightarrow> heap \<Rightarrow> js_error option \<times> heap" where
  "for_of_heap [] body h = (None, h)"
| "for_of_heap (i # is) body h =
     (case body i h of Inl e \<Rightarrow> (Some e, h) | Inr h' \<Rightarrow> for_of_heap is body h')"

definition rosetteLaw_heap ::
  "controller \<Rightarrow> addr list \<Rightarrow> real \<Rightarrow> heap \<Rightarrow> (js_error + addr list) \<times> heap" where
  "rosetteLaw_heap C state t h =
     (let n = length state;
          (acc, h1) = array_from_zeros n h
      in if length (petalIdx C) = 0 then (Inr acc, h1)
         else
           case ring_frame (petalIdx C) (snapshot h1 state) of
             Inl e \<Rightarrow> (Inl e, h1)
           | Inr None \<Rightarrow> (Inr acc, h1)
           | Inr (Some (c, cv, n)) \<Rightarrow>
               (case for_of_heap (petalIdx C) (correction_step_heap C state c cv n acc) h1 of
                  (Some e, h2) \<Rightarrow> (Inl e, h2)
                | (None, h2) \<Rightarrow> (Inr acc, h2)))"

text \<open>What the caller reads from the returned array, and the heap after a sequence of calls.\<close>

definition read_array :: "heap \<Rightarrow> addr list \<Rightarrow> vec3 list" where
  "read_array h acc = map (\<lambda>r. the (vec_cells h r)) acc"

definition returned_values ::
  "controller \<Rightarrow> addr list \<Rightarrow> real \<Rightarrow> heap \<Rightarrow> js_error + vec3 list" where
  "returned_values C state t h =
     (case rosetteLaw_heap C state t h of
        (Inl e, h') \<Rightarrow> Inl e
      | (Inr acc, h') \<Rightarrow> Inr (read_array h' acc))"

fun evaluations :: "controller \<Rightarrow> (addr list \<times> real) list \<Rightarrow> heap \<Rightarrow> heap" where
  "evaluations C [] h = h"
| "evaluations C ((state, t) # calls) h = evaluations C calls (snd (rosetteLaw_heap C state t h))"

text \<open>
  A state is allocated when its references lead to body objects whose position and velocity
  were allocated before; \<open>same_below k\<close> says that two heaps agree on every body object and on
  every vector object at an address below \<open>k\<close>.
\<close>

definition state_allocated :: "heap \<Rightarrow> addr list \<Rightarrow> bool" where
  "state_allocated h state =
     (\<forall>r \<in> set state. case body_cells h r of
          None \<Rightarrow> False
        | Some ob \<Rightarrow> obj_position ob < next_free h \<and> obj_velocity ob < next_free h)"

definition same_below :: "addr \<Rightarrow> heap \<Rightarrow> heap \<Rightarrow> bool" where
  "same_below k h h' =
     (body_cells h' = body_cells h \<and> (\<forall>r < k. vec_cells h' r = vec_cells h r))"

section \<open>The law with rounded arithmetic\<close>

text \<open>
  The program computes with binary64 doubles: each operation returns the double nearest to
  its exact result. This section repeats the returned law with a rounding function as a
  parameter. With the identity it is the law of the sections above, which is the law with
  every operation exact; with \<open>binary64\<close> it is the arithmetic of the program, as long as
  nothing overflows.
\<close>

text \<open>
  The nearest integer, a tie going to the even one; and the double nearest to a real, for
  reals of magnitude below \<open>2\<^sup>1\<^sup>0\<^sup>2\<^sup>4\<close>: 53 significant bits, exponent at least
  \<open>-1022\<close>. Larger reals overflow to \<open>Infinity\<close> in the program, which the reals do not have.
\<close>

definition round_half_even :: "real \<Rightarrow> int" where
  "round_half_even v =
     (let f = \<lfloor>v\<rfloor>; d = v - of_int f
      in if d < 1 / 2 then f else if 1 / 2 < d then f + 1 else if even f then f else f + 1)"

definition pow2 :: "int \<Rightarrow> real" where
  "pow2 e = (if 0 \<le> e then 2 ^ nat e else 1 / 2 ^ nat (- e))"

definition binary64 :: "real \<Rightarrow> real" where
  "binary64 v =
     (if v = 0 then 0
      else let e = max \<lfloor>log 2 \<bar>v\<bar>\<rfloor> (- 1022)
           in of_int (round_half_even (v / pow2 (e - 52))) * pow2 (e - 52))"

text \<open>
  The law again, line by line as above, with \<open>rnd\<close> applied to the result of every
  addition, subtraction, multiplication and division, and to the results of \<open>Math.hypot\<close>
  (taken as correctly rounded) and to the literal \<open>1e-9\<close>.
\<close>

definition js_div_fl :: "(real \<Rightarrow> real) \<Rightarrow> real \<Rightarrow> real \<Rightarrow> js_error + real" where
  "js_div_fl rnd a d = (if d = 0 then Inl ZeroDivisor else Inr (rnd (a / d)))"

definition vec_div_fl :: "(real \<Rightarrow> real) \<Rightarrow> vec3 \<Rightarrow> real \<Rightarrow> js_error + vec3" where
  "vec_div_fl rnd v d =
     bindE (js_div_fl rnd (vec_x v) d) (\<lambda>a.
     bindE (js_div_fl rnd (vec_y v) d) (\<lambda>b.
     bindE (js_div_fl rnd (vec_z v) d) (\<lambda>c. Inr (vec a b c))))"

definition centroid_step_fl ::
  "(real \<Rightarrow> real) \<Rightarrow> BodyState list \<Rightarrow> nat \<Rightarrow> real \<times> vec3 \<times> vec3
     \<Rightarrow> js_error + real \<times> vec3 \<times> vec3" where
  "centroid_step_fl rnd state i = (\<lambda>(mSum, c, cv).
     bindE (js_get state i) (\<lambda>b.
       Inr (rnd (mSum + mass b),
            vec (rnd (vec_x c + rnd (mass b * vec_x (position b))))
                (rnd (vec_y c + rnd (mass b * vec_y (position b))))
                (rnd (vec_z c + rnd (mass b * vec_z (position b)))),
            vec (rnd (vec_x cv + rnd (mass b * vec_x (velocity b))))
                (rnd (vec_y cv + rnd (mass b * vec_y (velocity b))))
                (rnd (vec_z cv + rnd (mass b * vec_z (velocity b)))))))"

definition momentum_step_fl ::
  "(real \<Rightarrow> real) \<Rightarrow> BodyState list \<Rightarrow> vec3 \<Rightarrow> vec3 \<Rightarrow> nat \<Rightarrow> vec3 \<Rightarrow> js_error + vec3" where
  "momentum_step_fl rnd state c cv i L =
     bindE (js_get state i) (\<lambda>b.
       let rx = rnd (vec_x (position b) - vec_x c);
           ry = rnd (vec_y (position b) - vec_y c);
           rz = rnd (vec_z (position b) - vec_z c);
           vx = rnd (vec_x (velocity b) - vec_x cv);
           vy = rnd (vec_y (velocity b) - vec_y cv);
           vz = rnd (vec_z (velocity b) - vec_z cv)
       in Inr (vec (rnd (vec_x L + rnd (rnd (rnd (ry * vz) - rnd (rz * vy)) * mass b)))
                   (rnd (vec_y L + rnd (rnd (rnd (rz * vx) - rnd (rx * vz)) * mass b)))
                   (rnd (vec_z L + rnd (rnd (rnd (rx * vy) - rnd (ry * vx)) * mass b)))))"

definition ring_frame_fl ::
  "(real \<Rightarrow> real) \<Rightarrow> nat list \<Rightarrow> BodyState list \<Rightarrow> js_error + (vec3 \<times> vec3 \<times> vec3) option" where
  "ring_frame_fl rnd idx state =
     bindE (for_of idx (centroid_step_fl rnd state) (0, vec 0 0 0, vec 0 0 0))
       (\<lambda>(mSum, csum, cvsum).
     if mSum \<le> 0 then Inr None
     else
       bindE (vec_div_fl rnd csum mSum) (\<lambda>c.
       bindE (vec_div_fl rnd cvsum mSum) (\<lambda>cv.
       bindE (for_of idx (momentum_step_fl rnd state c cv) (vec 0 0 0)) (\<lambda>L.
       let Ln = or_else (rnd (hypot3 (vec_x L) (vec_y L) (vec_z L))) 1 in
       bindE (vec_div_fl rnd L Ln) (\<lambda>n. Inr (Some (c, cv, n)))))))"

definition unclamped_correction_fl ::
  "(real \<Rightarrow> real) \<Rightarrow> controller \<Rightarrow> vec3 \<Rightarrow> vec3 \<Rightarrow> vec3 \<Rightarrow> BodyState \<Rightarrow> js_error + vec3" where
  "unclamped_correction_fl rnd C c cv n b =
     (let rx = rnd (vec_x (position b) - vec_x c);
          ry = rnd (vec_y (position b) - vec_y c);
          rz = rnd (vec_z (position b) - vec_z c);
          vx = rnd (vec_x (velocity b) - vec_x cv);
          vy = rnd (vec_y (velocity b) - vec_y cv);
          vz = rnd (vec_z (velocity b) - vec_z cv);
          r = or_else (rnd (hypot3 rx ry rz)) (rnd (1 / 10 ^ 9))
      in bindE (vec_div_fl rnd (vec rx ry rz) r) (\<lambda>r_hat.
         let tx0 = rnd (rnd (vec_y n * vec_z r_hat) - rnd (vec_z n * vec_y r_hat));
             ty0 = rnd (rnd (vec_z n * vec_x r_hat) - rnd (vec_x n * vec_z r_hat));
             tz0 = rnd (rnd (vec_x n * vec_y r_hat) - rnd (vec_y n * vec_x r_hat));
             t_norm = or_else (rnd (hypot3 tx0 ty0 tz0)) (rnd (1 / 10 ^ 9))
         in bindE (vec_div_fl rnd (vec tx0 ty0 tz0) t_norm) (\<lambda>t_hat.
            let vr = rnd (rnd (rnd (vx * vec_x r_hat) + rnd (vy * vec_y r_hat))
                          + rnd (vz * vec_z r_hat));
                vt = rnd (rnd (rnd (vx * vec_x t_hat) + rnd (vy * vec_y t_hat))
                          + rnd (vz * vec_z t_hat));
                a_r = rnd (rnd (- k_r C * rnd (r - rStar C)) - rnd (k_dr C * vr));
                a_t = rnd (rnd (- k_t C * rnd (vt - rnd (omegaStar C * r))) - rnd (k_dt C * vt));
                ax = rnd (rnd (rnd (a_r * vec_x r_hat) + rnd (a_t * vec_x t_hat)) - rnd (k_c C * vx));
                ay = rnd (rnd (rnd (a_r * vec_y r_hat) + rnd (a_t * vec_y t_hat)) - rnd (k_c C * vy));
                az = rnd (rnd (rnd (a_r * vec_z r_hat) + rnd (a_t * vec_z t_hat)) - rnd (k_c C * vz))
            in Inr (vec ax ay az))))"

definition clamp_correction_fl :: "(real \<Rightarrow> real) \<Rightarrow> controller \<Rightarrow> vec3 \<Rightarrow> js_error + vec3" where
  "clamp_correction_fl rnd C a =
     (let aN = rnd (hypot3 (vec_x a) (vec_y a) (vec_z a))
      in if aN > a_max C
         then bindE (js_div_fl rnd (a_max C) aN) (\<lambda>s.
                Inr (vec (rnd (vec_x a * s)) (rnd (vec_y a * s)) (rnd (vec_z a * s))))
         else Inr a)"

definition correction_step_fl ::
  "(real \<Rightarrow> real) \<Rightarrow> controller \<Rightarrow> BodyState list \<Rightarrow> vec3 \<Rightarrow> vec3 \<Rightarrow> vec3 \<Rightarrow> nat \<Rightarrow> vec3 list
     \<Rightarrow> js_error + vec3 list" where
  "correction_step_fl rnd C state c cv n i acc =
     bindE (js_get state i) (\<lambda>b.
     bindE (unclamped_correction_fl rnd C c cv n b) (\<lambda>a.
     bindE (clamp_correction_fl rnd C a) (\<lambda>a'.
     bindE (js_get acc i) (\<lambda>_. Inr (acc[i := a'])))))"

definition rosetteLaw_fl ::
  "(real \<Rightarrow> real) \<Rightarrow> controller \<Rightarrow> BodyState list \<Rightarrow> real \<Rightarrow> js_error + vec3 list" where
  "rosetteLaw_fl rnd C state t =
     (let n = length state;
          acc = replicate n (vec 0 0 0)
      in if length (petalIdx C) = 0 then Inr acc
         else
           bindE (ring_frame_fl rnd (petalIdx C) state) (\<lambda>frame.
             case frame of
               None \<Rightarrow> Inr acc
             | Some (c, cv, n) \<Rightarrow> for_of (petalIdx C) (correction_step_fl rnd C state c cv n) acc))"

text \<open>
  The decimal literals for the gains and the cap denote the doubles nearest to them. The
  target radius and angular speed are kept: in the test scenario the factory computes both
  as 1, with or without rounding.
\<close>

definition rounded_gains :: "(real \<Rightarrow> real) \<Rightarrow> controller \<Rightarrow> controller" where
  "rounded_gains rnd C =
     C\<lparr>k_r := rnd (k_r C), k_dr := rnd (k_dr C), k_t := rnd (k_t C), k_dt := rnd (k_dt C),
       k_c := rnd (k_c C), a_max := rnd (a_max C)\<rparr>"

text \<open>
  The value the cap returns under rounding: the acceleration itself, or its components
  multiplied by the rounded factor and rounded again.
\<close>

definition clamped_fl :: "(real \<Rightarrow> real) \<Rightarrow> real \<Rightarrow> vec3 \<Rightarrow> vec3" where
  "clamped_fl rnd cap u =
     (if cap < rnd (magnitude u)
      then vec (rnd (vec_x u * rnd (cap / rnd (magnitude u))))
               (rnd (vec_y u * rnd (cap / rnd (magnitude u))))
               (rnd (vec_z u * rnd (cap / rnd (magnitude u))))
      else u)"

section \<open>A test scenario\<close>

text \<open>
  A heavy core and two petals on a circle of radius 1, turning at angular speed 1; a later
  state in which the petals stand still at radius 2; the same state with a fourth body
  appended; a state that lost the petals; the second state laid out on a heap; states in
  which the petals stand still at radius \<open>10\<^sup>-\<^sup>1\<^sup>2\<close> and at radius \<open>1865 / 1024\<close>; and a ring
  of one petal off the \<open>x\<close>-\<open>y\<close> plane. \<open>positive_zeros\<close> says that no zero of a position
  is the negative zero.
\<close>

definition positive_zeros :: "nat \<Rightarrow> bool \<times> bool" where
  "positive_zeros i = (False, False)"

definition example_ring :: "BodyState list" where
  "example_ring =
     [\<lparr>name = ''Core'', mass = 10, position = vec 0 0 0, velocity = vec 0 0 0\<rparr>,
      \<lparr>name = ''Petal 1'', mass = 1, position = vec 1 0 0, velocity = vec 0 1 0\<rparr>,
      \<lparr>name = ''Petal 2'', mass = 1, position = vec (- 1) 0 0, velocity = vec 0 (- 1) 0\<rparr>]"


definition example_state :: "BodyState list" where
  "example_state =
     [\<lparr>name = ''Core'', mass = 10, position = vec 0 0 0, velocity = vec 0 0 0\<rparr>,
      \<lparr>name = ''Petal 1'', mass = 1, position = vec 2 0 0, velocity = vec 0 0 0\<rparr>,
      \<lparr>name = ''Petal 2'', mass = 1, position = vec (- 2) 0 0, velocity = vec 0 0 0\<rparr>]"

definition example_controller :: controller where
  "example_controller =
     \<lparr>petalIdx = [1, 2], rStar = 1, omegaStar = 1,
      k_r = 8 / 100, k_dr = 18 / 100, k_t = 12 / 100, k_dt = 8 / 100,
      k_c = 2 / 100, a_max = 4 / 100\<rparr>"

definition example_short_state :: "BodyState list" where
  "example_short_state =
     [\<lparr>name = ''Core'', mass = 10, position = vec 0 0 0, velocity = vec 0 0 0\<rparr>]"

definition example_heap :: heap where
  "example_heap =
     \<lparr>vec_cells = map_of [(0, vec 0 0 0), (1, vec 0 0 0), (2, vec 2 0 0), (3, vec 0 0 0),
                          (4, vec (- 2) 0 0), (5, vec 0 0 0)],
      body_cells = map_of
        [(0, \<lparr>obj_name = ''Core'', obj_mass = 10, obj_position = 0, obj_velocity = 1\<rparr>),
         (1, \<lparr>obj_name = ''Petal 1'', obj_mass = 1, obj_position = 2, obj_velocity = 3\<rparr>),
         (2, \<lparr>obj_name = ''Petal 2'', obj_mass = 1, obj_position = 4, obj_velocity = 5\<rparr>)],
      next_free = 6\<rparr>"

definition example_refs :: "addr list" where
  "example_refs = [0, 1, 2]"

definition example_tight_state :: "BodyState list" where
  "example_tight_state =
     [\<lparr>name = ''Core'', mass = 10, position = vec 0 0 0, velocity = vec 0 0 0\<rparr>,
      \<lparr>name = ''Petal 1'', mass = 1, position = vec (1 / 10 ^ 12) 0 0, velocity = vec 0 0 0\<rparr>,
      \<lparr>name = ''Petal 2'', mass = 1, position = vec (- (1 / 10 ^ 12)) 0 0, velocity = vec 0 0 0\<rparr>]"

definition example_far_state :: "BodyState list" where
  "example_far_state =
     [\<lparr>name = ''Core'', mass = 10, position = vec 0 0 0, velocity = vec 0 0 0\<rparr>,
      \<lparr>name = ''Petal 1'', mass = 1, position = vec (1865 / 1024) 0 0, velocity = vec 0 0 0\<rparr>,
      \<lparr>name = ''Petal 2'', mass = 1, position = vec (- (1865 / 1024)) 0 0, velocity = vec 0 0 0\<rparr>]"

definition example_long_state :: "BodyState list" where
  "example_long_state = example_state @ example_short_state"

section \<open>Auxiliary facts\<close>

subsection \<open>The random number generator\<close>

lemma seededRandom_call_shape:
  "\<exists>w::u32. seededRandom_call s = (real (unat w) / 4294967296, s + 0x6d2b79f5)"
  unfolding seededRandom_call_def Let_def by (rule exI) (rule refl)

lemma u32_unat_bound: "unat (w::u32) < 2 ^ 32"
  using unsigned_less [of w, where ?'a = nat] by simp

lemma seededRandom_call_range:
  "0 \<le> fst (seededRandom_call s) \<and> fst (seededRandom_call s) < 1"
proof -
  obtain w :: u32 where w: "seededRandom_call s = (real (unat w) / 4294967296, s + 0x6d2b79f5)"
    using seededRandom_call_shape by blast
  have "unat w < 4294967296" using u32_unat_bound [of w] by simp
  then have "real (unat w) < real 4294967296" by (simp only: of_nat_less_iff)
  moreover have "0 \<le> real (unat w)" by (rule of_nat_0_le_iff)
  ultimately show ?thesis by (simp add: w)
qed

lemma floor_scaled_index:
  assumes "0 \<le> r" "r < 1" "0 < n"
  shows "0 \<le> \<lfloor>r * real n\<rfloor> \<and> \<lfloor>r * real n\<rfloor> < int n"
proof -
  have "0 \<le> r * real n" using assms by simp
  then have lo: "0 \<le> \<lfloor>r * real n\<rfloor>" by simp
  have "r * real n < real n" using assms by simp
  then have "\<lfloor>r * real n\<rfloor> < int n" by (simp add: floor_less_iff)
  with lo show ?thesis by simp
qed

subsection \<open>Exceptions, loops and ring indices\<close>

lemma bindE_Inr [simp]: "bindE (Inr v) f = f v"
  by (simp add: bindE_def)

lemma bindE_Inl [simp]: "bindE (Inl e) f = Inl e"
  by (simp add: bindE_def)

lemma js_div_nonzero: "d \<noteq> 0 \<Longrightarrow> js_div a d = Inr (a / d)"
  by (simp add: js_div_def)

lemma vec_div_nonzero:
  "d \<noteq> 0 \<Longrightarrow> vec_div v d = Inr (vec (vec_x v / d) (vec_y v / d) (vec_z v / d))"
  by (simp add: vec_div_def js_div_nonzero)

lemma js_get_in_range: "i < length xs \<Longrightarrow> js_get xs i = Inr (xs ! i)"
  by (simp add: js_get_def)

lemma for_of_total:
  "(\<And>i s. i \<in> set idx \<Longrightarrow> body i s = Inr (g i s)) \<Longrightarrow> for_of idx body s = Inr (fold g idx s)"
  by (induction idx arbitrary: s) simp_all

lemma petalIdx_of_filter:
  "petalIdx_of bodies = filter (\<lambda>i. startsWith (name (bodies ! i)) ''Petal'') [0 ..< length bodies]"
proof -
  have "map snd (filter (\<lambda>(b, i). P b) (zip xs (map f xs))) = map f (filter P xs)" for P :: "'a \<Rightarrow> bool" and xs and f :: "'a \<Rightarrow> nat"
    by (induction xs) auto
  have gen: "map snd (filter (\<lambda>(b, i). P b) (zip (map (\<lambda>i. bodies ! i) js) js)) = filter (\<lambda>i. P (bodies ! i)) js"
    for P and js :: "nat list"
    by (induction js) auto
  have "zip bodies [0 ..< length bodies] = zip (map (\<lambda>i. bodies ! i) [0 ..< length bodies]) [0 ..< length bodies]"
    by (simp add: map_nth)
  then show ?thesis
    unfolding petalIdx_of_def using gen [of _ "[0 ..< length bodies]"] by simp
qed

lemma petalIdx_of_set:
  "set (petalIdx_of bodies) = {i. i < length bodies \<and> startsWith (name (bodies ! i)) ''Petal''}"
  by (auto simp: petalIdx_of_filter)

lemma petalIdx_of_distinct: "distinct (petalIdx_of bodies)"
  by (simp add: petalIdx_of_filter)

lemma petalIdx_of_members: "map (\<lambda>i. bodies ! i) (petalIdx_of bodies) = ring_members bodies"
proof -
  have "map (\<lambda>i. bodies ! i) (filter (\<lambda>i. P (bodies ! i)) js) = filter P (map (\<lambda>i. bodies ! i) js)"
    for P and js :: "nat list"
    by (induction js) auto
  from this [of "\<lambda>b. startsWith (name b) ''Petal''" "[0 ..< length bodies]"]
  show ?thesis
    unfolding petalIdx_of_filter ring_members_def by (simp only: map_nth)
qed

subsection \<open>Norms and angles\<close>

lemma hypot2_nonneg: "0 \<le> hypot2 a b" by (simp add: hypot2_def)

lemma hypot3_nonneg: "0 \<le> hypot3 a b c" by (simp add: hypot3_def)


lemma hypot3_eq_0: "hypot3 a b c = 0 \<longleftrightarrow> a = 0 \<and> b = 0 \<and> c = 0"
proof -
  have "a\<^sup>2 + b\<^sup>2 + c\<^sup>2 = 0 \<longleftrightarrow> a = 0 \<and> b = 0 \<and> c = 0"
    by (smt (verit) zero_le_power2 power2_eq_iff_nonneg zero_eq_power2)
  then show ?thesis by (simp add: hypot3_def)
qed

lemma or_else_pos: "0 \<le> a \<Longrightarrow> 0 < d \<Longrightarrow> 0 < or_else a d"
  by (simp add: or_else_def)



subsection \<open>The factory\<close>

lemma fold_two_sums:
  "fold (\<lambda>i (p, q). (p + f i, q + h i)) idx (a, b)
   = (a + sum_list (map f idx), b + sum_list (map h idx :: real list))"
  for a b :: real
  by (induction idx arbitrary: a b) (simp_all add: add.assoc)

lemma sum_list_pos:
  "xs \<noteq> [] \<Longrightarrow> (\<And>v. v \<in> set xs \<Longrightarrow> 0 < v) \<Longrightarrow> 0 < sum_list (xs :: real list)"
proof (induction xs)
  case Nil
  then show ?case by simp
next
  case (Cons v xs)
  show ?case
  proof (cases "xs = []")
    case True
    with Cons.prems show ?thesis by simp
  next
    case False
    then have "0 < sum_list xs" using Cons by simp
    moreover have "0 < v" using Cons.prems by simp
    ultimately show ?thesis by simp
  qed
qed

lemma rStar_loop:
  assumes "\<And>i. i \<in> set idx \<Longrightarrow> i < length bodies"
  shows "for_of idx (rStar_step bodies) (0, 0)
         = Inr (sum_list (map (\<lambda>i. mass (bodies ! i)) idx),
                sum_list (map (\<lambda>i. mass (bodies ! i) * magnitude (position (bodies ! i))) idx))"
proof -
  have "for_of idx (rStar_step bodies) (0, 0)
        = Inr (fold (\<lambda>i (p, q). (p + mass (bodies ! i),
                 q + mass (bodies ! i) * magnitude (position (bodies ! i)))) idx (0, 0))"
    by (rule for_of_total)
       (auto simp: rStar_step_def js_get_in_range assms magnitude_def Let_def)
  then show ?thesis by (simp add: fold_two_sums)
qed

lemma omegaStar_loop:
  assumes "\<And>i. i \<in> set idx \<Longrightarrow> i < length bodies"
  shows "for_of idx (omegaStar_step zeros bodies) (0, 0)
         = Inr (sum_list (map (\<lambda>i. mass (bodies ! i)) idx),
                sum_list (map (\<lambda>i. mass (bodies ! i)
                     * (tangential_velocity (zeros i) (bodies ! i) / planar_radius (bodies ! i))) idx))"
proof -
  have nz: "planar_radius b \<noteq> 0" for b
  proof -
    have "0 < planar_radius b"
      unfolding planar_radius_def by (rule or_else_pos) (simp_all add: hypot2_nonneg)
    then show ?thesis by simp
  qed
  have "for_of idx (omegaStar_step zeros bodies) (0, 0)
        = Inr (fold (\<lambda>i (p, q). (p + mass (bodies ! i),
                 q + mass (bodies ! i)
                     * (tangential_velocity (zeros i) (bodies ! i) / planar_radius (bodies ! i))))
                 idx (0, 0))"
  proof (rule for_of_total)
    fix i s assume "i \<in> set idx"
    then have "i < length bodies" by (rule assms)
    then show "omegaStar_step zeros bodies i s =
         Inr ((\<lambda>(p, q). (p + mass (bodies ! i),
                 q + mass (bodies ! i)
                     * (tangential_velocity (zeros i) (bodies ! i) / planar_radius (bodies ! i)))) s)"
      using nz [of "bodies ! i"]
      unfolding planar_radius_def tangential_velocity_def omegaStar_step_def
      by (cases s) (simp add: js_get_in_range Let_def js_div_nonzero)
  qed
  then show ?thesis by (simp add: fold_two_sums)
qed

lemma petalIdx_of_in_range: "i \<in> set (petalIdx_of bodies) \<Longrightarrow> i < length bodies"
  by (simp add: petalIdx_of_set)

lemma sum_over_members:
  "sum_list (map (\<lambda>i. f (bodies ! i)) (petalIdx_of bodies)) = sum_list (map f (ring_members bodies))"
proof -
  have "map (\<lambda>i. f (bodies ! i)) (petalIdx_of bodies) = map f (map (\<lambda>i. bodies ! i) (petalIdx_of bodies))"
    by simp
  then show ?thesis by (simp only: petalIdx_of_members)
qed

lemma rStar_of_value:
  "rStar_of bodies (petalIdx_of bodies)
   = Inr (if 0 < sum_list (map mass (ring_members bodies))
          then sum_list (map (\<lambda>b. mass b * magnitude (position b)) (ring_members bodies))
               / sum_list (map mass (ring_members bodies))
          else 12)"
  using sum_over_members [of mass bodies]
    sum_over_members [of "\<lambda>b. mass b * magnitude (position b)" bodies]
  by (simp add: rStar_of_def rStar_loop petalIdx_of_in_range js_div_nonzero)

lemma omegaStar_of_value:
  "omegaStar_of zeros bodies (petalIdx_of bodies)
   = Inr (if 0 < sum_list (map mass (ring_members bodies))
          then member_rate_sum zeros bodies / sum_list (map mass (ring_members bodies))
          else 0)"
  using sum_over_members [of mass bodies]
  by (simp add: omegaStar_of_def omegaStar_loop petalIdx_of_in_range js_div_nonzero
      member_rate_sum_def)

lemma makeRosetteController_value:
  "makeRosetteController zeros bodies
   = Inr \<lparr>petalIdx = petalIdx_of bodies,
          rStar = (if 0 < sum_list (map mass (ring_members bodies))
                   then sum_list (map (\<lambda>b. mass b * magnitude (position b)) (ring_members bodies))
                        / sum_list (map mass (ring_members bodies))
                   else 12),
          omegaStar = (if 0 < sum_list (map mass (ring_members bodies))
                   then member_rate_sum zeros bodies / sum_list (map mass (ring_members bodies))
                   else 0),
          k_r = 8 / 100, k_dr = 18 / 100, k_t = 12 / 100, k_dt = 8 / 100,
          k_c = 2 / 100, a_max = 4 / 100\<rparr>"
  by (simp add: makeRosetteController_def Let_def rStar_of_value omegaStar_of_value)

lemma ring_mass_pos:
  assumes "ring_members bodies \<noteq> []" and "\<forall>b \<in> set (ring_members bodies). 0 < mass b"
  shows "0 < sum_list (map mass (ring_members bodies))"
  by (rule sum_list_pos) (use assms in auto)

subsection \<open>The loops of the law\<close>

lemma vec_sel [simp]: "vec_x (vec a b c) = a" "vec_y (vec a b c) = b" "vec_z (vec a b c) = c"
  by (simp_all add: vec_def)

lemma vec_eta [simp]: "vec (vec_x v) (vec_y v) (vec_z v) = v"
  by (simp add: vec_def)

lemma vec_inject [simp]: "vec a b c = vec a' b' c' \<longleftrightarrow> a = a' \<and> b = b' \<and> c = c'"
  by (simp add: vec_def)

lemma centroid_step_in_range:
  "i < length state \<Longrightarrow>
   centroid_step state i (m, c, cv)
   = Inr (m + mass (state ! i),
          vadd c (scale (mass (state ! i)) (position (state ! i))),
          vadd cv (scale (mass (state ! i)) (velocity (state ! i))))"
  by (simp add: centroid_step_def js_get_in_range vadd_def scale_def)

lemma centroid_step_out_of_range:
  "\<not> i < length state \<Longrightarrow> centroid_step state i s = Inl TypeError"
  by (cases s) (simp add: centroid_step_def js_get_def)

lemma centroid_loop:
  assumes "\<And>i. i \<in> set idx \<Longrightarrow> i < length state"
  shows "for_of idx (centroid_step state) (m, c, cv)
         = Inr (m + ring_mass state idx,
                vadd c (weighted_sum position state idx),
                vadd cv (weighted_sum velocity state idx))"
  using assms
proof (induction idx arbitrary: m c cv)
  case Nil
  show ?case by (simp add: ring_mass_def weighted_sum_def vadd_def)
next
  case (Cons i idx)
  have i: "i < length state" using Cons.prems by simp
  have rest: "\<And>j. j \<in> set idx \<Longrightarrow> j < length state" using Cons.prems by simp
  show ?case
    by (simp add: centroid_step_in_range [OF i] Cons.IH [OF rest]
        ring_mass_def weighted_sum_def vadd_def scale_def add.assoc)
qed

lemma centroid_loop_error:
  assumes "\<exists>i \<in> set idx. \<not> i < length state"
  shows "for_of idx (centroid_step state) s = Inl TypeError"
  using assms
proof (induction idx arbitrary: s)
  case Nil
  then show ?case by simp
next
  case (Cons i idx)
  obtain m c cv where s: "s = (m, c, cv)" by (cases s) auto
  show ?case
  proof (cases "i < length state")
    case True
    then have "\<exists>j \<in> set idx. \<not> j < length state" using Cons.prems by auto
    then show ?thesis
      by (simp add: s centroid_step_in_range [OF True] Cons.IH)
  next
    case False
    then show ?thesis by (simp add: centroid_step_out_of_range)
  qed
qed

lemma momentum_step_in_range:
  "i < length state \<Longrightarrow>
   momentum_step state c cv i L
   = Inr (vadd L (scale (mass (state ! i))
            (cross (vsub (position (state ! i)) c) (vsub (velocity (state ! i)) cv))))"
  by (simp add: momentum_step_def js_get_in_range Let_def vadd_def scale_def cross_def vsub_def
      mult.commute)

lemma momentum_loop:
  assumes "\<And>i. i \<in> set idx \<Longrightarrow> i < length state"
  shows "for_of idx (momentum_step state c cv) L
         = Inr (vadd L (weighted_sum (\<lambda>b. cross (vsub (position b) c) (vsub (velocity b) cv)) state idx))"
  using assms
proof (induction idx arbitrary: L)
  case Nil
  show ?case by (simp add: weighted_sum_def vadd_def)
next
  case (Cons i idx)
  have i: "i < length state" using Cons.prems by simp
  have rest: "\<And>j. j \<in> set idx \<Longrightarrow> j < length state" using Cons.prems by simp
  show ?case
    by (simp add: momentum_step_in_range [OF i] Cons.IH [OF rest]
        weighted_sum_def vadd_def scale_def add.assoc)
qed

lemma magnitude_nonneg: "0 \<le> magnitude v"
  by (simp add: magnitude_def hypot3_nonneg)

lemma magnitude_vec: "magnitude (vec a b c) = hypot3 a b c"
  by (simp add: magnitude_def)

lemma floor_guard_nonzero: "0 < d \<Longrightarrow> or_else (hypot3 a b c) d \<noteq> 0"
  using or_else_pos [OF hypot3_nonneg, of d a b c] by simp

lemma unclamped_correction_value:
  "unclamped_correction C c cv n b = Inr (pd_correction C c cv n b)"
proof -
  define rx where "rx = vec_x (position b) - vec_x c"
  define ry where "ry = vec_y (position b) - vec_y c"
  define rz where "rz = vec_z (position b) - vec_z c"
  define r where "r = or_else (hypot3 rx ry rz) (1 / 1000000000)"
  define rh where "rh = vec (rx / r) (ry / r) (rz / r)"
  define tx0 where "tx0 = vec_y n * vec_z rh - vec_z n * vec_y rh"
  define ty0 where "ty0 = vec_z n * vec_x rh - vec_x n * vec_z rh"
  define tz0 where "tz0 = vec_x n * vec_y rh - vec_y n * vec_x rh"
  define t_norm where "t_norm = or_else (hypot3 tx0 ty0 tz0) (1 / 1000000000)"
  have r_fold: "or_else (hypot3 rx ry rz) (1 / 10 ^ 9) = r" by (simp add: r_def)
  have t_fold: "or_else (hypot3 tx0 ty0 tz0) (1 / 10 ^ 9) = t_norm" by (simp add: t_norm_def)
  have r0: "r \<noteq> 0" unfolding r_def by (rule floor_guard_nonzero) simp
  have t0: "t_norm \<noteq> 0" unfolding t_norm_def by (rule floor_guard_nonzero) simp
  have rel: "vsub (position b) c = vec rx ry rz"
    by (simp add: vsub_def rx_def ry_def rz_def)
  have rd: "radial_distance c b = r"
    by (simp add: radial_distance_def rel magnitude_vec r_def)
  have rhat: "r_hat c b = rh"
    by (simp add: r_hat_def normalize_def rel magnitude_vec r_def [symmetric] scale_def rh_def)
  have that: "t_hat c n b = vec (tx0 / t_norm) (ty0 / t_norm) (tz0 / t_norm)"
    by (simp add: t_hat_def normalize_def rhat cross_def tx0_def [symmetric] ty0_def [symmetric]
        tz0_def [symmetric] magnitude_vec t_norm_def [symmetric] scale_def)
  have "unclamped_correction C c cv n b
        = Inr (pd_correction C c cv n b)"
    unfolding unclamped_correction_def Let_def
      rx_def [symmetric] ry_def [symmetric] rz_def [symmetric] r_fold
    apply (simp only: vec_div_nonzero [OF r0] bindE_Inr vec_sel rh_def [symmetric])
    apply (simp only: tx0_def [symmetric] ty0_def [symmetric] tz0_def [symmetric] t_fold)
    apply (simp only: vec_div_nonzero [OF t0] bindE_Inr vec_sel)
    apply (simp add: pd_correction_def Let_def rd rhat that dot_def vsub_def vadd_def scale_def)
    apply (simp add: algebra_simps)
    done
  then show ?thesis .
qed



lemma clamp_correction_value:
  assumes "0 \<le> a_max C"
  shows "clamp_correction C a = Inr (clamped (a_max C) a)"
proof (cases "a_max C < magnitude a")
  case True
  then have "hypot3 (vec_x a) (vec_y a) (vec_z a) \<noteq> 0"
    using assms by (simp add: magnitude_def)
  then show ?thesis
    using True
    by (simp add: clamp_correction_def clamped_def Let_def magnitude_def [symmetric]
        js_div_nonzero scale_def mult.commute)
next
  case False
  then show ?thesis
    by (simp add: clamp_correction_def clamped_def Let_def magnitude_def [symmetric])
qed


lemma correction_step_value:
  assumes "i < length state" "length acc = length state" "0 \<le> a_max C"
  shows "correction_step C state c cv n i acc
         = Inr (acc[i := clamped (a_max C) (pd_correction C c cv n (state ! i))])"
  using assms
  by (simp add: correction_step_def js_get_in_range unclamped_correction_value
      clamp_correction_value)

lemma correction_loop:
  assumes "\<And>i. i \<in> set idx \<Longrightarrow> i < length state" "length acc = length state" "0 \<le> a_max C"
  shows "for_of idx (correction_step C state c cv n) acc
         = Inr (fold (\<lambda>i acc. acc[i := clamped (a_max C) (pd_correction C c cv n (state ! i))]) idx acc)"
  using assms
proof (induction idx arbitrary: acc)
  case Nil
  show ?case by simp
next
  case (Cons i idx)
  have i: "i < length state" using Cons.prems by simp
  show ?case
    using Cons.prems
    by (simp add: correction_step_value [OF i Cons.prems(2) Cons.prems(3)] Cons.IH)
qed

lemma fold_update_length:
  "length (fold (\<lambda>i acc. acc[i := g i]) idx acc) = length acc"
  by (induction idx arbitrary: acc) simp_all

lemma fold_update_nth:
  "j < length acc \<Longrightarrow>
   fold (\<lambda>i acc. acc[i := g i]) idx acc ! j = (if j \<in> set idx then g j else acc ! j)"
proof (induction idx arbitrary: acc)
  case Nil
  show ?case by simp
next
  case (Cons i idx)
  then show ?case
    by (cases "j = i") (simp_all add: nth_list_update)
qed

lemma weighted_sum_scale:
  "m \<noteq> 0 \<Longrightarrow> vec_div (weighted_sum f state idx) m = Inr (scale (1 / m) (weighted_sum f state idx))"
  by (simp add: vec_div_nonzero scale_def)

lemma vadd_zero [simp]: "vadd (vec 0 0 0) v = v"
  by (simp add: vadd_def)

lemma ring_frame_value:
  assumes range: "\<And>i. i \<in> set idx \<Longrightarrow> i < length state"
  shows "ring_frame idx state
         = Inr (if ring_mass state idx \<le> 0 then None
                else Some (ring_centroid state idx, ring_centroid_velocity state idx,
                           ring_normal state idx))"
proof (cases "ring_mass state idx \<le> 0")
  case True
  then show ?thesis
    by (simp add: ring_frame_def centroid_loop [OF range])
next
  case False
  then have m0: "ring_mass state idx \<noteq> 0" by simp
  have Ln: "or_else (hypot3 (vec_x L) (vec_y L) (vec_z L)) 1 \<noteq> 0" for L
    by (rule floor_guard_nonzero) simp
  have n: "vec_div L (or_else (hypot3 (vec_x L) (vec_y L) (vec_z L)) 1)
           = Inr (scale (1 / or_else (magnitude L) 1) L)" for L
    by (simp add: vec_div_nonzero [OF Ln] scale_def magnitude_def)
  show ?thesis
    using False
    by (simp add: ring_frame_def Let_def centroid_loop [OF range] weighted_sum_scale [OF m0]
        momentum_loop [OF range] n ring_centroid_def ring_centroid_velocity_def ring_normal_def
        ring_angular_momentum_def)
qed

lemma ring_frame_out_of_range:
  "\<exists>i \<in> set idx. \<not> i < length state \<Longrightarrow> ring_frame idx state = Inl TypeError"
  by (simp add: ring_frame_def centroid_loop_error)

lemma rosetteLaw_value:
  assumes range: "\<And>i. i \<in> set (petalIdx C) \<Longrightarrow> i < length state" and cap: "0 \<le> a_max C"
  shows "rosetteLaw C state t
         = Inr (if petalIdx C = [] \<or> ring_mass state (petalIdx C) \<le> 0
                then replicate (length state) (vec 0 0 0)
                else fold (\<lambda>i acc. acc[i := member_correction C state i]) (petalIdx C)
                       (replicate (length state) (vec 0 0 0)))"
  by (simp add: rosetteLaw_def Let_def ring_frame_value [OF range]
      correction_loop [OF range _ cap] member_correction_def)

lemma rosetteLaw_out_of_range:
  assumes "petalIdx C \<noteq> []" "\<exists>i \<in> set (petalIdx C). \<not> i < length state"
  shows "rosetteLaw C state t = Inl TypeError"
  using assms by (simp add: rosetteLaw_def Let_def ring_frame_out_of_range)

subsection \<open>The value of the law\<close>

lemma makeRosetteController_fields:
  assumes "makeRosetteController zeros initialBodies = Inr C"
  shows "petalIdx C = petalIdx_of initialBodies" and "a_max C = 4 / 100"
  using assms by (auto simp: makeRosetteController_value)

lemma makeRosetteController_total: "\<exists>C. makeRosetteController zeros initialBodies = Inr C"
  by (simp add: makeRosetteController_value)

lemma rosetteLaw_cases:
  assumes cap: "0 \<le> a_max C"
  shows "(\<exists>i \<in> set (petalIdx C). \<not> i < length state) \<and> rosetteLaw C state t = Inl TypeError
       \<or> (\<forall>i \<in> set (petalIdx C). i < length state)
          \<and> rosetteLaw C state t
              = Inr (if petalIdx C = [] \<or> ring_mass state (petalIdx C) \<le> 0
                     then replicate (length state) (vec 0 0 0)
                     else fold (\<lambda>i acc. acc[i := member_correction C state i]) (petalIdx C)
                            (replicate (length state) (vec 0 0 0)))"
proof (cases "\<forall>i \<in> set (petalIdx C). i < length state")
  case True
  then show ?thesis using rosetteLaw_value [of C state t] cap by simp
next
  case False
  then have "petalIdx C \<noteq> []" by auto
  then show ?thesis using False rosetteLaw_out_of_range [of C state t] by simp
qed

lemma rosetteLaw_result_nth:
  assumes cap: "0 \<le> a_max C" and res: "rosetteLaw C state t = Inr acc"
  shows "length acc = length state"
    and "i < length state \<Longrightarrow>
         acc ! i = (if i \<in> set (petalIdx C) \<and> 0 < ring_mass state (petalIdx C)
                    then member_correction C state i else vec 0 0 0)"
proof -
  from rosetteLaw_cases [OF cap, of state t] res
  have acc: "acc = (if petalIdx C = [] \<or> ring_mass state (petalIdx C) \<le> 0
                     then replicate (length state) (vec 0 0 0)
                     else fold (\<lambda>i acc. acc[i := member_correction C state i]) (petalIdx C)
                            (replicate (length state) (vec 0 0 0)))"
    by auto
  show "length acc = length state"
    by (simp add: acc fold_update_length)
  show "acc ! i = (if i \<in> set (petalIdx C) \<and> 0 < ring_mass state (petalIdx C)
                    then member_correction C state i else vec 0 0 0)" if "i < length state"
    using that by (auto simp: acc fold_update_nth)
qed


lemma magnitude_zero [simp]: "magnitude (vec 0 0 0) = 0"
  by (simp add: magnitude_def hypot3_def)


lemma or_else_magnitude:
  "or_else (magnitude v) d = (if v = vec 0 0 0 then d else magnitude v)"
  by (auto simp: or_else_def magnitude_def hypot3_eq_0 vec_def)

subsection \<open>The test scenario evaluated\<close>

lemma hypot3_axis [simp]: "hypot3 a 0 0 = \<bar>a\<bar>"
  by (simp add: hypot3_def)

lemma hypot2_axis [simp]: "hypot2 a 0 = \<bar>a\<bar>"
  by (simp add: hypot2_def)

lemma example_ring_members:
  "ring_members example_ring =
     [\<lparr>name = ''Petal 1'', mass = 1, position = vec 1 0 0, velocity = vec 0 1 0\<rparr>,
      \<lparr>name = ''Petal 2'', mass = 1, position = vec (- 1) 0 0, velocity = vec 0 (- 1) 0\<rparr>]"
  by (simp add: ring_members_def example_ring_def startsWith_def)

lemma example_petalIdx: "petalIdx_of example_ring = [1, 2]"
  by (simp add: petalIdx_of_def example_ring_def startsWith_def upt_rec)

lemma example_member_rate_sum: "member_rate_sum zeros example_ring = 2"
  by (simp add: member_rate_sum_def example_petalIdx)
     (simp add: example_ring_def tangential_velocity_def planar_radius_def atan2_def or_else_def)

lemma makeRosetteController_example:
  "makeRosetteController zeros example_ring = Inr example_controller"
  by (simp add: makeRosetteController_value example_ring_members example_petalIdx
      example_member_rate_sum example_controller_def magnitude_def)

lemma example_frame:
  "ring_mass example_state [Suc 0, 2] = 2"
  "ring_centroid example_state [Suc 0, 2] = vec 0 0 0"
  "ring_centroid_velocity example_state [Suc 0, 2] = vec 0 0 0"
  "ring_angular_momentum example_state [Suc 0, 2] = vec 0 0 0"
  "ring_normal example_state [Suc 0, 2] = vec 0 0 0"
proof -
  show m: "ring_mass example_state [Suc 0, 2] = 2"
    by (simp add: ring_mass_def example_state_def)
  show c: "ring_centroid example_state [Suc 0, 2] = vec 0 0 0"
    by (simp add: ring_centroid_def m weighted_sum_def scale_def example_state_def)
  show cv: "ring_centroid_velocity example_state [Suc 0, 2] = vec 0 0 0"
    by (simp add: ring_centroid_velocity_def m weighted_sum_def scale_def example_state_def)
  show L: "ring_angular_momentum example_state [Suc 0, 2] = vec 0 0 0"
    unfolding ring_angular_momentum_def Let_def c cv
    by (simp add: weighted_sum_def cross_def vsub_def example_state_def)
  show "ring_normal example_state [Suc 0, 2] = vec 0 0 0"
    by (simp add: ring_normal_def L scale_def)
qed

lemma example_unclamped:
  "pd_correction example_controller (vec 0 0 0) (vec 0 0 0) (vec 0 0 0) (example_state ! Suc 0)
   = vec (- (8 / 100)) 0 0"
  "pd_correction example_controller (vec 0 0 0) (vec 0 0 0) (vec 0 0 0) (example_state ! 2)
   = vec (8 / 100) 0 0"
  by (simp_all add: pd_correction_def radial_distance_def r_hat_def t_hat_def normalize_def
      vsub_def vadd_def scale_def cross_def dot_def magnitude_def or_else_def
      example_state_def example_controller_def)

lemma example_member_correction:
  "member_correction example_controller example_state (Suc 0) = vec (- (4 / 100)) 0 0"
  "member_correction example_controller example_state 2 = vec (4 / 100) 0 0"
proof -
  have idx: "petalIdx example_controller = [Suc 0, 2]" and cap: "a_max example_controller = 4 / 100"
    by (simp_all add: example_controller_def)
  show "member_correction example_controller example_state (Suc 0) = vec (- (4 / 100)) 0 0"
    by (simp add: member_correction_def idx cap example_frame example_unclamped clamped_def
        magnitude_def scale_def)
  show "member_correction example_controller example_state 2 = vec (4 / 100) 0 0"
    by (simp add: member_correction_def idx cap example_frame example_unclamped clamped_def
        magnitude_def scale_def)
qed

lemma rosetteLaw_example:
  "rosetteLaw example_controller example_state t
   = Inr [vec 0 0 0, vec (- (4 / 100)) 0 0, vec (4 / 100) 0 0]"
proof -
  have idx: "petalIdx example_controller = [Suc 0, 2]" and cap: "a_max example_controller = 4 / 100"
    by (simp_all add: example_controller_def)
  have len: "length example_state = 3" by (simp add: example_state_def)
  have "rosetteLaw example_controller example_state t
        = Inr (fold (\<lambda>i acc. acc[i := member_correction example_controller example_state i]) [Suc 0, 2]
                (replicate 3 (vec 0 0 0)))"
  proof -
    have range: "\<And>i. i \<in> set (petalIdx example_controller) \<Longrightarrow> i < length example_state"
      by (auto simp: idx len)
    show ?thesis
      using rosetteLaw_value [of example_controller example_state t, OF range]
      by (simp add: idx cap len example_frame)
  qed
  then show ?thesis
    by (simp add: example_member_correction numeral_3_eq_3)
qed

subsection \<open>The law on the heap\<close>

lemma same_below_refl: "same_below k h h"
  by (simp add: same_below_def)

lemma same_below_trans:
  "same_below k h h1 \<Longrightarrow> same_below k' h1 h2 \<Longrightarrow> k \<le> k' \<Longrightarrow> same_below k h h2"
  by (simp add: same_below_def)

lemma array_from_zeros_spec:
  "array_from_zeros n h = (acc, h1) \<Longrightarrow>
     acc = [next_free h ..< next_free h + n]
     \<and> next_free h1 = next_free h + n
     \<and> same_below (next_free h) h h1
     \<and> (\<forall>r \<in> set acc. vec_cells h1 r = Some (vec 0 0 0))"
proof (induction n arbitrary: h acc h1)
  case 0
  then show ?case by (simp add: same_below_def)
next
  case (Suc n)
  define h' where "h' = snd (new_vec (vec 0 0 0) h)"
  obtain rs h2 where rec: "array_from_zeros n h' = (rs, h2)"
    by (cases "array_from_zeros n h'") auto
  have nf: "next_free h' = Suc (next_free h)"
    and cells: "vec_cells h' = (vec_cells h)(next_free h \<mapsto> vec 0 0 0)"
    and bodies: "body_cells h' = body_cells h"
    by (simp_all add: h'_def new_vec_def)
  have "array_from_zeros (Suc n) h = (next_free h # rs, h2)"
    using rec by (simp add: new_vec_def h'_def)
  with Suc.prems have eq: "acc = next_free h # rs" "h1 = h2" by simp_all
  note ih = Suc.IH [OF rec]
  have first: "vec_cells h2 (next_free h) = Some (vec 0 0 0)"
    using ih by (simp add: same_below_def nf cells)
  have "same_below (next_free h) h h'"
    by (simp add: same_below_def cells bodies)
  then have "same_below (next_free h) h h2"
    using ih by (auto simp: same_below_def nf)
  moreover have "[next_free h ..< next_free h + Suc n] = next_free h # rs"
    using ih by (simp add: nf upt_conv_Cons)
  ultimately show ?case
    using ih first by (simp add: eq nf)
qed

lemma snapshot_same_below:
  assumes "state_allocated h state" "same_below k h h'" "next_free h \<le> k"
  shows "snapshot h' state = snapshot h state"
proof -
  have "body_value h' r = body_value h r" if "r \<in> set state" for r
  proof -
    have "case body_cells h r of None \<Rightarrow> False
            | Some ob \<Rightarrow> obj_position ob < next_free h \<and> obj_velocity ob < next_free h"
      using assms(1) that by (simp add: state_allocated_def)
    then obtain ob where ob: "body_cells h r = Some ob"
      and lt: "obj_position ob < next_free h" "obj_velocity ob < next_free h"
      by (cases "body_cells h r") auto
    have "body_cells h' r = Some ob"
      using assms(2) ob by (simp add: same_below_def)
    moreover have "vec_cells h' (obj_position ob) = vec_cells h (obj_position ob)"
      "vec_cells h' (obj_velocity ob) = vec_cells h (obj_velocity ob)"
      using assms(2,3) lt by (simp_all add: same_below_def)
    ultimately show ?thesis
      by (simp add: body_value_def ob)
  qed
  then show ?thesis by (simp add: snapshot_def)
qed

lemma state_allocated_same_below:
  assumes "state_allocated h state" "same_below k h h'" "next_free h \<le> next_free h'"
  shows "state_allocated h' state"
  using assms by (auto simp: state_allocated_def same_below_def split: option.splits)

lemma write_vec_same_below: "k \<le> r \<Longrightarrow> same_below k h (write_vec r v h)"
  by (simp add: same_below_def write_vec_def)

lemma write_vec_next_free [simp]: "next_free (write_vec r v h) = next_free h"
  by (simp add: write_vec_def)

lemma read_array_write:
  assumes "distinct acc" "i < length acc"
  shows "read_array (write_vec (acc ! i) v h) acc = (read_array h acc)[i := v]"
proof (rule nth_equalityI)
  show "length (read_array (write_vec (acc ! i) v h) acc) = length ((read_array h acc)[i := v])"
    by (simp add: read_array_def)
next
  fix j assume "j < length (read_array (write_vec (acc ! i) v h) acc)"
  then have j: "j < length acc" by (simp add: read_array_def)
  show "read_array (write_vec (acc ! i) v h) acc ! j = (read_array h acc)[i := v] ! j"
  proof (cases "j = i")
    case True
    then show ?thesis using j by (simp add: read_array_def write_vec_def)
  next
    case False
    then have "acc ! j \<noteq> acc ! i"
      using assms j by (simp add: nth_eq_iff_index_eq)
    then show ?thesis
      using j False by (simp add: read_array_def write_vec_def)
  qed
qed

lemma correction_loop_heap:
  assumes alloc: "state_allocated h0 state"
    and k: "next_free h0 \<le> k"
    and fresh: "\<forall>r \<in> set acc. k \<le> r"
    and dist: "distinct acc"
    and len: "length acc = length state"
    and frame: "same_below k h0 h"
  shows "case for_of_heap idx (correction_step_heap C state c cv n acc) h of
           (None, h') \<Rightarrow>
             for_of idx (correction_step C (snapshot h0 state) c cv n) (read_array h acc)
               = Inr (read_array h' acc)
             \<and> same_below k h0 h' \<and> next_free h' = next_free h
         | (Some e, h') \<Rightarrow>
             for_of idx (correction_step C (snapshot h0 state) c cv n) (read_array h acc) = Inl e
             \<and> same_below k h0 h' \<and> next_free h' = next_free h"
  using frame
proof (induction idx arbitrary: h)
  case Nil
  then show ?case by simp
next
  case (Cons i idx)
  have snap: "snapshot h state = snapshot h0 state"
    by (rule snapshot_same_below [OF alloc Cons.prems k])
  have lens: "length (read_array h acc) = length acc"
    by (simp add: read_array_def)
  show ?case
  proof (cases "correction_step C (snapshot h0 state) c cv n i (read_array h acc)")
    case (Inl e)
    then have "correction_step_heap C state c cv n acc i h = Inl e"
      by (auto simp: correction_step_heap_def correction_step_def snap js_get_def lens
          bindE_def split: sum.splits if_splits)
    then show ?thesis
      using Inl Cons.prems by simp
  next
    case (Inr vs)
    then obtain a where i: "i < length acc"
      and vs: "vs = (read_array h acc)[i := a]"
      and step: "correction_step_heap C state c cv n acc i h = Inr (write_vec (acc ! i) a h)"
      by (auto simp: correction_step_heap_def correction_step_def snap js_get_def lens
          bindE_def split: sum.splits if_splits)
    have "k \<le> acc ! i" using fresh i by simp
    then have "same_below k h (write_vec (acc ! i) a h)"
      by (rule write_vec_same_below)
    then have frame': "same_below k h0 (write_vec (acc ! i) a h)"
      using Cons.prems same_below_trans by blast
    have arr: "read_array (write_vec (acc ! i) a h) acc = vs"
      by (simp add: vs read_array_write [OF dist i])
    obtain eo h' where run: "for_of_heap idx (correction_step_heap C state c cv n acc)
                               (write_vec (acc ! i) a h) = (eo, h')"
      by (cases "for_of_heap idx (correction_step_heap C state c cv n acc) (write_vec (acc ! i) a h)")
    show ?thesis
      using Cons.IH [OF frame'] by (cases eo) (simp_all add: step Inr arr run)
  qed
qed

lemma correction_step_heap_writes:
  assumes "correction_step_heap C state c cv n acc i h = Inr h'"
  shows "\<exists>r \<in> set acc. \<exists>a. h' = write_vec r a h"
  using assms
  by (auto simp: correction_step_heap_def js_get_def bindE_def split: sum.splits if_splits)

lemma for_of_heap_frame:
  assumes fresh: "\<forall>r \<in> set acc. k \<le> r"
  shows "same_below k h (snd (for_of_heap idx (correction_step_heap C state c cv n acc) h))
       \<and> next_free (snd (for_of_heap idx (correction_step_heap C state c cv n acc) h)) = next_free h"
proof (induction idx arbitrary: h)
  case Nil
  show ?case by (simp add: same_below_refl)
next
  case (Cons i idx)
  show ?case
  proof (cases "correction_step_heap C state c cv n acc i h")
    case (Inl e)
    then show ?thesis by (simp add: same_below_refl)
  next
    case (Inr h')
    then obtain r a where r: "r \<in> set acc" and h': "h' = write_vec r a h"
      using correction_step_heap_writes by blast
    have "same_below k h h'" using fresh r by (simp add: h' write_vec_same_below)
    then show ?thesis
      using Cons.IH [of h'] same_below_trans [of k h h' k] by (simp add: Inr h')
  qed
qed

lemma rosetteLaw_heap_frame:
  "same_below (next_free h) h (snd (rosetteLaw_heap C state t h))
   \<and> next_free h \<le> next_free (snd (rosetteLaw_heap C state t h))"
proof -
  obtain acc h1 where al: "array_from_zeros (length state) h = (acc, h1)"
    by (cases "array_from_zeros (length state) h") auto
  note spec = array_from_zeros_spec [OF al]
  have fresh: "\<forall>r \<in> set acc. next_free h \<le> r" using spec by simp
  have base: "same_below (next_free h) h h1" "next_free h \<le> next_free h1"
    using spec by simp_all
  show ?thesis
  proof (cases "petalIdx C = []")
    case True
    then show ?thesis using base by (simp add: rosetteLaw_heap_def al)
  next
    case False
    show ?thesis
    proof (cases "ring_frame (petalIdx C) (snapshot h1 state)")
      case (Inl e)
      then show ?thesis using False base by (simp add: rosetteLaw_heap_def al)
    next
      case (Inr fr)
      show ?thesis
      proof (cases fr)
        case None
        then show ?thesis using False base Inr by (simp add: rosetteLaw_heap_def al)
      next
        case (Some f)
        obtain c cv n where f: "f = (c, cv, n)" by (cases f) auto
        obtain eo h2 where run: "for_of_heap (petalIdx C) (correction_step_heap C state c cv n acc) h1
                                 = (eo, h2)"
          by (cases "for_of_heap (petalIdx C) (correction_step_heap C state c cv n acc) h1")
        have "same_below (next_free h) h1 h2 \<and> next_free h2 = next_free h1"
          using for_of_heap_frame [OF fresh, of h1 "petalIdx C" C state c cv n] by (simp add: run)
        then have "same_below (next_free h) h h2" "next_free h \<le> next_free h2"
          using base same_below_trans [of "next_free h" h h1 "next_free h" h2] by simp_all
        then show ?thesis
          using False Inr Some f run by (cases eo) (simp_all add: rosetteLaw_heap_def al)
      qed
    qed
  qed
qed

lemma read_array_zeros:
  "\<forall>r \<in> set acc. vec_cells h r = Some v \<Longrightarrow> read_array h acc = replicate (length acc) v"
  by (induction acc) (simp_all add: read_array_def)

lemma ring_frame_in_range:
  assumes "ring_frame idx state = Inr fr"
  shows "\<forall>i \<in> set idx. i < length state"
proof (rule ccontr)
  assume "\<not> (\<forall>i \<in> set idx. i < length state)"
  then have "ring_frame idx state = Inl TypeError"
    using ring_frame_out_of_range [of idx state] by blast
  with assms show False by simp
qed

lemma rosetteLaw_heap_refines:
  assumes alloc: "state_allocated h state"
  shows "returned_values C state t h = rosetteLaw C (snapshot h state) t"
proof -
  obtain acc h1 where al: "array_from_zeros (length state) h = (acc, h1)"
    by (cases "array_from_zeros (length state) h") auto
  note spec = array_from_zeros_spec [OF al]
  have fresh: "\<forall>r \<in> set acc. next_free h \<le> r" and dist: "distinct acc"
    and len: "length acc = length state"
    using spec by simp_all
  have base: "same_below (next_free h) h h1" using spec by simp
  have snap: "snapshot h1 state = snapshot h state"
    by (rule snapshot_same_below [OF alloc base order_refl])
  have zeros: "read_array h1 acc = replicate (length state) (vec 0 0 0)"
    using read_array_zeros [of acc h1 "vec 0 0 0"] spec len by simp
  have lsnap: "length (snapshot h state) = length state" by (simp add: snapshot_def)
  show ?thesis
  proof (cases "petalIdx C = []")
    case True
    then show ?thesis
      by (simp add: returned_values_def rosetteLaw_heap_def al rosetteLaw_def zeros lsnap)
  next
    case False
    show ?thesis
    proof (cases "ring_frame (petalIdx C) (snapshot h state)")
      case (Inl e)
      then show ?thesis
        using False
        by (simp add: returned_values_def rosetteLaw_heap_def al rosetteLaw_def snap)
    next
      case (Inr fr)
      show ?thesis
      proof (cases fr)
        case None
        then show ?thesis
          using False Inr
          by (simp add: returned_values_def rosetteLaw_heap_def al rosetteLaw_def snap zeros
              lsnap)
      next
        case (Some f)
        obtain c cv n where f: "f = (c, cv, n)" by (cases f) auto
        obtain eo h2 where run: "for_of_heap (petalIdx C) (correction_step_heap C state c cv n acc) h1
                                 = (eo, h2)"
          by (cases "for_of_heap (petalIdx C) (correction_step_heap C state c cv n acc) h1")
        note loop = correction_loop_heap [OF alloc order_refl fresh dist len base,
            of "petalIdx C" C c cv n]
        show ?thesis
          using False Inr Some f loop
          by (cases eo)
             (simp_all add: returned_values_def rosetteLaw_heap_def al rosetteLaw_def snap zeros
                lsnap run)
      qed
    qed
  qed
qed

lemma evaluations_frame:
  "same_below (next_free h) h (evaluations C calls h)
   \<and> next_free h \<le> next_free (evaluations C calls h)"
proof (induction calls arbitrary: h)
  case Nil
  show ?case by (simp add: same_below_refl)
next
  case (Cons call calls)
  obtain state t where call: "call = (state, t)" by (cases call) auto
  define h1 where "h1 = snd (rosetteLaw_heap C state t h)"
  have one: "same_below (next_free h) h h1" "next_free h \<le> next_free h1"
    using rosetteLaw_heap_frame [of h C state t] by (simp_all add: h1_def)
  have rest: "same_below (next_free h1) h1 (evaluations C calls h1)"
    "next_free h1 \<le> next_free (evaluations C calls h1)"
    using Cons.IH [of h1] by simp_all
  have "same_below (next_free h) h (evaluations C calls h1)"
    using same_below_trans [OF one(1) rest(1) one(2)] .
  then show ?case
    using one rest by (simp add: call h1_def)
qed

subsection \<open>More of the test scenario\<close>

lemma example_heap_allocated: "state_allocated example_heap example_refs"
  by (simp add: state_allocated_def example_heap_def example_refs_def)

lemma example_heap_snapshot: "snapshot example_heap example_refs = example_state"
  by (simp add: snapshot_def body_value_def example_heap_def example_refs_def example_state_def)

lemma makeRosetteController_empty:
  "makeRosetteController positive_zeros [] =
     Inr \<lparr>petalIdx = [], rStar = 12, omegaStar = 0,
          k_r = 8 / 100, k_dr = 18 / 100, k_t = 12 / 100, k_dt = 8 / 100,
          k_c = 2 / 100, a_max = 4 / 100\<rparr>"
  by (simp add: makeRosetteController_value ring_members_def petalIdx_of_def)

lemma example_controller_fields:
  "petalIdx example_controller = [Suc 0, 2]" "a_max example_controller = 4 / 100"
  "rStar example_controller = 1" "omegaStar example_controller = 1"
  by (simp_all add: example_controller_def)

lemma example_state_length: "length example_state = 3"
  by (simp add: example_state_def)

lemma example_in_range: "\<forall>i \<in> set (petalIdx example_controller). i < length example_state"
  by (simp add: example_controller_fields example_state_length)

lemma example_ring_mass: "0 < ring_mass example_state (petalIdx example_controller)"
  by (simp add: example_controller_fields example_frame)

lemma ring_quantities_cong:
  assumes "\<forall>i \<in> set idx. s ! i = s' ! i"
  shows "ring_mass s idx = ring_mass s' idx"
    and "weighted_sum f s idx = weighted_sum f s' idx"
    and "ring_centroid s idx = ring_centroid s' idx"
    and "ring_centroid_velocity s idx = ring_centroid_velocity s' idx"
    and "ring_normal s idx = ring_normal s' idx"
proof -
  have m: "map (\<lambda>i. g (s ! i)) idx = map (\<lambda>i. g (s' ! i)) idx" for g :: "BodyState \<Rightarrow> real"
    using assms by simp
  show rm: "ring_mass s idx = ring_mass s' idx"
    unfolding ring_mass_def by (simp only: m)
  show ws: "weighted_sum f s idx = weighted_sum f s' idx" for f
    unfolding weighted_sum_def
    by (simp only: m [of "\<lambda>b. mass b * vec_x (f b)"] m [of "\<lambda>b. mass b * vec_y (f b)"]
        m [of "\<lambda>b. mass b * vec_z (f b)"])
  show "ring_centroid s idx = ring_centroid s' idx"
    by (simp only: ring_centroid_def rm ws)
  moreover show "ring_centroid_velocity s idx = ring_centroid_velocity s' idx"
    by (simp only: ring_centroid_velocity_def rm ws)
  ultimately show "ring_normal s idx = ring_normal s' idx"
    by (simp only: ring_normal_def ring_angular_momentum_def ws)
qed

lemma member_correction_cong:
  assumes "\<forall>i \<in> set (petalIdx C). s ! i = s' ! i" and "i \<in> set (petalIdx C)"
  shows "member_correction C s i = member_correction C s' i"
  using assms ring_quantities_cong [OF assms(1)] by (simp add: member_correction_def)

lemma rosetteLaw_example_longer:
  "rosetteLaw example_controller example_long_state t
   = Inr [vec 0 0 0, vec (- (4 / 100)) 0 0, vec (4 / 100) 0 0, vec 0 0 0]"
proof -
  have same: "\<forall>i \<in> set (petalIdx example_controller). example_long_state ! i = example_state ! i"
    by (simp add: example_controller_fields example_long_state_def example_state_def)
  have len: "length example_long_state = 4"
    by (simp add: example_long_state_def example_state_def example_short_state_def)
  have range: "\<And>i. i \<in> set (petalIdx example_controller) \<Longrightarrow> i < length example_long_state"
    by (auto simp: example_controller_fields len)
  have mass: "ring_mass example_long_state [Suc 0, 2] = 2"
    using ring_quantities_cong(1) [OF same] by (simp add: example_controller_fields example_frame)
  have mc: "member_correction example_controller example_long_state (Suc 0) = vec (- (4 / 100)) 0 0"
    "member_correction example_controller example_long_state 2 = vec (4 / 100) 0 0"
    using member_correction_cong [OF same]
    by (simp_all add: example_controller_fields example_member_correction)
  have "rosetteLaw example_controller example_long_state t
        = Inr (fold (\<lambda>i acc. acc[i := member_correction example_controller example_long_state i])
                [Suc 0, 2] (replicate 4 (vec 0 0 0)))"
    using rosetteLaw_value [of example_controller example_long_state t, OF range]
    by (simp add: example_controller_fields len mass)
  moreover have "replicate 4 (vec 0 0 0) = [vec 0 0 0, vec 0 0 0, vec 0 0 0, vec 0 0 0]"
  proof -
    have "(4::nat) = Suc (Suc (Suc (Suc 0)))" by simp
    then show ?thesis by (simp only: replicate_Suc replicate_0)
  qed
  ultimately show ?thesis
    by (simp add: mc)
qed

lemma example_ring_positive: "\<forall>b \<in> set (ring_members example_ring). 0 < mass b"
  by (simp add: example_ring_members)

lemma example_ring_nonempty: "ring_members example_ring \<noteq> []"
  by (simp add: example_ring_members)

subsection \<open>Fallbacks and divisors\<close>

lemma vsub_eq_zero: "vsub p c = vec 0 0 0 \<longleftrightarrow> p = c"
  by (auto simp: vsub_def)

lemma radial_distance_cases:
  "radial_distance c b
   = (if vsub (position b) c = vec 0 0 0 then 1 / 10 ^ 9 else magnitude (vsub (position b) c))"
  by (simp add: radial_distance_def or_else_magnitude)

lemma radial_distance_pos: "0 < radial_distance c b"
  unfolding radial_distance_def by (rule or_else_pos) (simp_all add: magnitude_nonneg)

lemma t_hat_cases:
  "t_hat c n b
   = scale (1 / (if cross n (r_hat c b) = vec 0 0 0 then 1 / 10 ^ 9
                 else magnitude (cross n (r_hat c b))))
       (cross n (r_hat c b))"
  by (simp add: t_hat_def normalize_def or_else_magnitude)

lemma example_tight_frame:
  "ring_mass example_tight_state [Suc 0, 2] = 2"
  "ring_centroid example_tight_state [Suc 0, 2] = vec 0 0 0"
  "ring_centroid_velocity example_tight_state [Suc 0, 2] = vec 0 0 0"
  "ring_angular_momentum example_tight_state [Suc 0, 2] = vec 0 0 0"
  "ring_normal example_tight_state [Suc 0, 2] = vec 0 0 0"
proof -
  show m: "ring_mass example_tight_state [Suc 0, 2] = 2"
    by (simp add: ring_mass_def example_tight_state_def)
  show c: "ring_centroid example_tight_state [Suc 0, 2] = vec 0 0 0"
    by (simp add: ring_centroid_def m weighted_sum_def scale_def example_tight_state_def)
  show cv: "ring_centroid_velocity example_tight_state [Suc 0, 2] = vec 0 0 0"
    by (simp add: ring_centroid_velocity_def m weighted_sum_def scale_def example_tight_state_def)
  show L: "ring_angular_momentum example_tight_state [Suc 0, 2] = vec 0 0 0"
    unfolding ring_angular_momentum_def Let_def c cv
    by (simp add: weighted_sum_def cross_def vsub_def example_tight_state_def)
  show "ring_normal example_tight_state [Suc 0, 2] = vec 0 0 0"
    by (simp add: ring_normal_def L scale_def)
qed

subsection \<open>Rounded arithmetic\<close>










text \<open>Doubles nearest to given reals, computed from the exponent of the real.\<close>

lemma pow2_powr: "pow2 e = 2 powr real_of_int e"
  by (simp add: pow2_def powr_real_of_int inverse_eq_divide)

lemma pow2_pos: "0 < pow2 e"
  by (simp add: pow2_powr)

lemma binary64_eval:
  assumes "pow2 e \<le> \<bar>v\<bar>" and "\<bar>v\<bar> < pow2 (e + 1)" and "- 1022 \<le> e"
  shows "binary64 v = of_int (round_half_even (v / pow2 (e - 52))) * pow2 (e - 52)"
proof -
  have pos: "0 < \<bar>v\<bar>" using assms(1) pow2_pos [of e] by linarith
  then have nz: "v \<noteq> 0" by auto
  have "\<lfloor>log 2 \<bar>v\<bar>\<rfloor> = e"
    using assms(1,2) floor_log_eq_powr_iff [of "\<bar>v\<bar>" 2 e] pos by (simp add: pow2_powr)
  then have "max \<lfloor>log 2 \<bar>v\<bar>\<rfloor> (- 1022) = e" using assms(3) by simp
  then show ?thesis
    using nz by (simp add: binary64_def Let_def)
qed

lemma binary64_zero [simp]: "binary64 0 = 0"
  by (simp add: binary64_def)

lemma binary64_values:
  "binary64 1 = 1"
  "binary64 (- 1) = - 1"
  "binary64 2 = 2"
  "binary64 (1865 / 1024) = 1865 / 1024"
  "binary64 (- (1865 / 1024)) = - (1865 / 1024)"
  "binary64 (841 / 1024) = 841 / 1024"
proof -
  show "binary64 1 = 1"
    by (subst binary64_eval [of 0]) (simp_all add: pow2_def round_half_even_def)
  show "binary64 (- 1) = - 1"
    by (subst binary64_eval [of 0]) (simp_all add: pow2_def round_half_even_def)
  show "binary64 2 = 2"
    by (subst binary64_eval [of 1]) (simp_all add: pow2_def round_half_even_def)
  show "binary64 (1865 / 1024) = 1865 / 1024"
    by (subst binary64_eval [of 0]) (simp_all add: pow2_def round_half_even_def)
  show "binary64 (- (1865 / 1024)) = - (1865 / 1024)"
    by (subst binary64_eval [of 0]) (simp_all add: pow2_def round_half_even_def)
  show "binary64 (841 / 1024) = 841 / 1024"
    by (subst binary64_eval [of "- 1"]) (simp_all add: pow2_def round_half_even_def)
qed

lemma binary64_gains:
  "binary64 (2 / 25) = 5764607523034235 / 72057594037927936"
  "binary64 (1 / 25) = 5764607523034235 / 144115188075855872"
  "binary64 (1 / 1000000000) = 4835703278458517 / 4835703278458516698824704"
proof -
  show "binary64 (2 / 25) = 5764607523034235 / 72057594037927936"
    by (subst binary64_eval [of "- 4"]) (simp_all add: pow2_def round_half_even_def)
  show "binary64 (1 / 25) = 5764607523034235 / 144115188075855872"
    by (subst binary64_eval [of "- 5"]) (simp_all add: pow2_def round_half_even_def)
  show "binary64 (1 / 1000000000) = 4835703278458517 / 4835703278458516698824704"
    by (subst binary64_eval [of "- 30"]) (simp_all add: pow2_def round_half_even_def)
qed

lemma binary64_trace:
  "binary64 (- (4848034926871791635 / 73786976294838206464))
     = - (2367204554136617 / 36028797018963968)"
  "binary64 (2367204554136617 / 36028797018963968) = 2367204554136617 / 36028797018963968"
  "binary64 (- (2367204554136617 / 36028797018963968)) = - (2367204554136617 / 36028797018963968)"
  "binary64 (5764607523034235 / 9468818216546468) = 5483574338201413 / 9007199254740992"
  "binary64 (12980742146337070498196864439821 / 324518553658426726783156020576256)
     = 1441151880758559 / 36028797018963968"
  "binary64 (- (12980742146337070498196864439821 / 324518553658426726783156020576256))
     = - (1441151880758559 / 36028797018963968)"
proof -
  show "binary64 (- (4848034926871791635 / 73786976294838206464))
     = - (2367204554136617 / 36028797018963968)"
    by (subst binary64_eval [of "- 4"]) (simp_all add: pow2_def round_half_even_def)
  show "binary64 (2367204554136617 / 36028797018963968) = 2367204554136617 / 36028797018963968"
    by (subst binary64_eval [of "- 4"]) (simp_all add: pow2_def round_half_even_def)
  show "binary64 (- (2367204554136617 / 36028797018963968)) = - (2367204554136617 / 36028797018963968)"
    by (subst binary64_eval [of "- 4"]) (simp_all add: pow2_def round_half_even_def)
  show "binary64 (5764607523034235 / 9468818216546468) = 5483574338201413 / 9007199254740992"
    by (subst binary64_eval [of "- 1"]) (simp_all add: pow2_def round_half_even_def)
  show "binary64 (12980742146337070498196864439821 / 324518553658426726783156020576256)
     = 1441151880758559 / 36028797018963968"
    by (subst binary64_eval [of "- 5"]) (simp_all add: pow2_def round_half_even_def)
  show "binary64 (- (12980742146337070498196864439821 / 324518553658426726783156020576256))
     = - (1441151880758559 / 36028797018963968)"
    by (subst binary64_eval [of "- 5"]) (simp_all add: pow2_def round_half_even_def)
qed

text \<open>The rounded law on the state with the petals at radius \<open>1865 / 1024\<close>.\<close>

lemma js_div_fl_nonzero: "d \<noteq> 0 \<Longrightarrow> js_div_fl rnd a d = Inr (rnd (a / d))"
  by (simp add: js_div_fl_def)

lemma vec_div_fl_nonzero:
  "d \<noteq> 0 \<Longrightarrow>
   vec_div_fl rnd v d = Inr (vec (rnd (vec_x v / d)) (rnd (vec_y v / d)) (rnd (vec_z v / d)))"
  by (simp add: vec_div_fl_def js_div_fl_nonzero)

lemma example_far_bodies:
  "example_far_state ! Suc 0
   = \<lparr>name = ''Petal 1'', mass = 1, position = vec (1865 / 1024) 0 0, velocity = vec 0 0 0\<rparr>"
  "example_far_state ! 2
   = \<lparr>name = ''Petal 2'', mass = 1, position = vec (- (1865 / 1024)) 0 0, velocity = vec 0 0 0\<rparr>"
  "length example_far_state = 3"
  by (simp_all add: example_far_state_def)

lemma example_far_frame:
  "ring_frame_fl binary64 [Suc 0, 2] example_far_state
   = Inr (Some (vec 0 0 0, vec 0 0 0, vec 0 0 0))"
proof -
  have c: "for_of [Suc 0, 2] (centroid_step_fl binary64 example_far_state) (0, vec 0 0 0, vec 0 0 0)
           = Inr (2, vec 0 0 0, vec 0 0 0)"
    by (simp add: centroid_step_fl_def js_get_def example_far_bodies binary64_values)
  have L: "for_of [Suc 0, 2] (momentum_step_fl binary64 example_far_state (vec 0 0 0) (vec 0 0 0))
             (vec 0 0 0)
           = Inr (vec 0 0 0)"
    by (simp add: momentum_step_fl_def js_get_def example_far_bodies binary64_values)
  show ?thesis
    apply (subst ring_frame_fl_def)
    apply (subst c)
    apply (simp add: vec_div_fl_nonzero del: for_of.simps)
    apply (subst L)
    apply (simp add: vec_div_fl_nonzero or_else_def hypot3_def)
    done
qed

lemma example_far_unclamped:
  "unclamped_correction_fl binary64 (rounded_gains binary64 example_controller)
     (vec 0 0 0) (vec 0 0 0) (vec 0 0 0) (example_far_state ! Suc 0)
   = Inr (vec (- (2367204554136617 / 36028797018963968)) 0 0)"
  "unclamped_correction_fl binary64 (rounded_gains binary64 example_controller)
     (vec 0 0 0) (vec 0 0 0) (vec 0 0 0) (example_far_state ! 2)
   = Inr (vec (2367204554136617 / 36028797018963968) 0 0)"
  by (simp_all add: unclamped_correction_fl_def example_far_bodies binary64_values
      binary64_gains binary64_trace or_else_def vec_div_fl_nonzero rounded_gains_def
      example_controller_def)

lemma example_far_clamped:
  "clamp_correction_fl binary64 (rounded_gains binary64 example_controller)
     (vec (- (2367204554136617 / 36028797018963968)) 0 0)
   = Inr (vec (- (1441151880758559 / 36028797018963968)) 0 0)"
  "clamp_correction_fl binary64 (rounded_gains binary64 example_controller)
     (vec (2367204554136617 / 36028797018963968) 0 0)
   = Inr (vec (1441151880758559 / 36028797018963968) 0 0)"
  by (simp_all add: clamp_correction_fl_def binary64_values binary64_gains binary64_trace
      js_div_fl_nonzero rounded_gains_def example_controller_def)

lemma rosetteLaw_fl_example_far:
  "rosetteLaw_fl binary64 (rounded_gains binary64 example_controller) example_far_state t
   = Inr [vec 0 0 0,
          vec (- (1441151880758559 / 36028797018963968)) 0 0,
          vec (1441151880758559 / 36028797018963968) 0 0]"
proof -
  have idx: "petalIdx (rounded_gains binary64 example_controller) = [Suc 0, 2]"
    by (simp add: rounded_gains_def example_controller_def)
  have three: "replicate 3 (vec 0 0 0) = [vec 0 0 0, vec 0 0 0, vec 0 0 0]"
    by (simp add: numeral_3_eq_3)
  have s1: "correction_step_fl binary64 (rounded_gains binary64 example_controller)
              example_far_state (vec 0 0 0) (vec 0 0 0) (vec 0 0 0) (Suc 0) acc
            = Inr (acc[Suc 0 := vec (- (1441151880758559 / 36028797018963968)) 0 0])"
    if "length acc = 3" for acc
    using that
    by (simp add: correction_step_fl_def js_get_def example_far_bodies(3)
        example_far_unclamped example_far_clamped)
  have s2: "correction_step_fl binary64 (rounded_gains binary64 example_controller)
              example_far_state (vec 0 0 0) (vec 0 0 0) (vec 0 0 0) 2 acc
            = Inr (acc[2 := vec (1441151880758559 / 36028797018963968) 0 0])"
    if "length acc = 3" for acc
    using that
    by (simp add: correction_step_fl_def js_get_def example_far_bodies(3)
        example_far_unclamped example_far_clamped)
  show ?thesis
    by (simp add: rosetteLaw_fl_def idx example_far_bodies(3) example_far_frame three s1 s2)
qed

text \<open>
  The rounded law never divides by zero when the floor \<open>1e-9\<close> does not round to zero and
  the cap does not round below zero, and its entries at the ring indices are the values the
  cap returns, whatever the rounding.
\<close>

lemma rounded_gains_fields:
  "petalIdx (rounded_gains rnd C) = petalIdx C" "a_max (rounded_gains rnd C) = rnd (a_max C)"
  "rStar (rounded_gains rnd C) = rStar C" "omegaStar (rounded_gains rnd C) = omegaStar C"
  by (simp_all add: rounded_gains_def)



lemma for_of_invariant:
  assumes "P s" "\<And>i s. i \<in> set idx \<Longrightarrow> P s \<Longrightarrow> \<exists>s'. step i s = Inr s' \<and> P s'"
  shows "\<exists>s'. for_of idx step s = Inr s' \<and> P s'"
  using assms
proof (induction idx arbitrary: s)
  case Nil
  then show ?case by simp
next
  case (Cons i idx)
  from Cons.prems(2) [of i s] Cons.prems(1)
  obtain s1 where s1: "step i s = Inr s1" "P s1" by auto
  have "\<exists>s'. for_of idx step s1 = Inr s' \<and> P s'"
    by (rule Cons.IH [OF s1(2)]) (use Cons.prems(2) in auto)
  then show ?case by (simp add: s1)
qed

lemma for_of_first_error:
  assumes "\<exists>i \<in> set idx. \<forall>s. step i s = Inl e" "\<And>i s. step i s = Inl e \<or> (\<exists>s'. step i s = Inr s')"
  shows "for_of idx step s = Inl e"
  using assms(1)
proof (induction idx arbitrary: s)
  case Nil
  then show ?case by simp
next
  case (Cons i idx)
  show ?case
  proof (cases "\<forall>s. step i s = Inl e")
    case True
    then show ?thesis by simp
  next
    case False
    then have rest: "\<exists>j \<in> set idx. \<forall>s. step j s = Inl e" using Cons.prems by auto
    from assms(2) [of i s] show ?thesis
    proof
      assume "step i s = Inl e" then show ?thesis by simp
    next
      assume "\<exists>s'. step i s = Inr s'"
      then obtain s' where "step i s = Inr s'" by auto
      then show ?thesis by (simp add: Cons.IH [OF rest])
    qed
  qed
qed

lemma centroid_step_fl_cases:
  "centroid_step_fl rnd state i s
   = (if i < length state then centroid_step_fl rnd state i s else Inl TypeError)
   \<and> (i < length state \<longrightarrow> (\<exists>s'. centroid_step_fl rnd state i s = Inr s'))"
  by (cases s) (simp add: centroid_step_fl_def js_get_def bindE_def)

lemma centroid_loop_fl_error:
  assumes "\<exists>i \<in> set idx. \<not> i < length state"
  shows "for_of idx (centroid_step_fl rnd state) s = Inl TypeError"
proof (rule for_of_first_error)
  from assms obtain i where i: "i \<in> set idx" "\<not> i < length state" by auto
  have "\<forall>s. centroid_step_fl rnd state i s = Inl TypeError"
    using centroid_step_fl_cases [of rnd state i] i(2) by auto
  then show "\<exists>i \<in> set idx. \<forall>s. centroid_step_fl rnd state i s = Inl TypeError"
    using i(1) by blast
next
  fix i s
  show "centroid_step_fl rnd state i s = Inl TypeError
        \<or> (\<exists>s'. centroid_step_fl rnd state i s = Inr s')"
    using centroid_step_fl_cases [of rnd state i s] by (cases "i < length state") auto
qed

lemma centroid_loop_fl_total:
  assumes "\<And>i. i \<in> set idx \<Longrightarrow> i < length state"
  shows "\<exists>s'. for_of idx (centroid_step_fl rnd state) s = Inr s'"
  using for_of_invariant [of "\<lambda>_. True" s idx "centroid_step_fl rnd state"]
    centroid_step_fl_cases [of rnd state] assms by auto

lemma momentum_loop_fl_total:
  assumes "\<And>i. i \<in> set idx \<Longrightarrow> i < length state"
  shows "\<exists>L'. for_of idx (momentum_step_fl rnd state c cv) L = Inr L'"
proof -
  have "\<exists>s'. momentum_step_fl rnd state c cv i s = Inr s'" if "i \<in> set idx" for i s
    using assms [OF that] by (simp add: momentum_step_fl_def js_get_def bindE_def Let_def)
  then show ?thesis
    using for_of_invariant [of "\<lambda>_. True" L idx "momentum_step_fl rnd state c cv"] by auto
qed

lemma or_else_nonzero: "d \<noteq> 0 \<Longrightarrow> or_else a d \<noteq> 0"
  by (simp add: or_else_def)

lemma ring_frame_fl_total:
  assumes "\<And>i. i \<in> set idx \<Longrightarrow> i < length state"
  shows "\<exists>frame. ring_frame_fl rnd idx state = Inr frame"
proof -
  obtain mSum csum cvsum
    where s: "for_of idx (centroid_step_fl rnd state) (0, vec 0 0 0, vec 0 0 0)
              = Inr (mSum, csum, cvsum)"
    using centroid_loop_fl_total [where rnd = rnd and s = "(0, vec 0 0 0, vec 0 0 0)", OF assms]
    by (metis prod_cases3)
  show ?thesis
  proof (cases "mSum \<le> 0")
    case True
    then show ?thesis by (simp add: ring_frame_fl_def s)
  next
    case False
    then have m0: "mSum \<noteq> 0" by simp
    obtain c where c: "vec_div_fl rnd csum mSum = Inr c"
      by (simp add: vec_div_fl_nonzero [OF m0])
    obtain cv where cv: "vec_div_fl rnd cvsum mSum = Inr cv"
      by (simp add: vec_div_fl_nonzero [OF m0])
    obtain L where L: "for_of idx (momentum_step_fl rnd state c cv) (vec 0 0 0) = Inr L"
      using momentum_loop_fl_total [where rnd = rnd and c = c and cv = cv and L = "vec 0 0 0", OF assms]
      by auto
    have Ln: "or_else (rnd (hypot3 (vec_x L) (vec_y L) (vec_z L))) 1 \<noteq> 0"
      by (rule or_else_nonzero) simp
    show ?thesis
      using False by (simp add: ring_frame_fl_def s c cv L Let_def vec_div_fl_nonzero [OF Ln])
  qed
qed

lemma ring_frame_fl_out_of_range:
  "\<exists>i \<in> set idx. \<not> i < length state \<Longrightarrow> ring_frame_fl rnd idx state = Inl TypeError"
  by (simp add: ring_frame_fl_def centroid_loop_fl_error)

lemma unclamped_correction_fl_total:
  assumes "rnd (1 / 10 ^ 9) \<noteq> 0"
  shows "\<exists>u. unclamped_correction_fl rnd C c cv n b = Inr u"
proof -
  have nz: "or_else a (rnd (1 / 1000000000)) \<noteq> 0" for a
    by (rule or_else_nonzero) (use assms in simp)
  show ?thesis
    by (simp add: unclamped_correction_fl_def Let_def vec_div_fl_nonzero [OF nz])
qed

lemma clamp_correction_fl_value:
  assumes "0 \<le> a_max C"
  shows "clamp_correction_fl rnd C u = Inr (clamped_fl rnd (a_max C) u)"
proof (cases "a_max C < rnd (magnitude u)")
  case True
  then have "rnd (hypot3 (vec_x u) (vec_y u) (vec_z u)) \<noteq> 0"
    using assms by (simp add: magnitude_def)
  then show ?thesis
    using True
    by (simp add: clamp_correction_fl_def clamped_fl_def Let_def magnitude_def js_div_fl_nonzero)
next
  case False
  then show ?thesis
    by (simp add: clamp_correction_fl_def clamped_fl_def Let_def magnitude_def)
qed




lemma correction_loop_fl_total:
  assumes "\<And>i. i \<in> set idx \<Longrightarrow> i < length state" "length acc = length state"
    "rnd (1 / 10 ^ 9) \<noteq> 0" "0 \<le> a_max C"
  shows "\<exists>acc'. for_of idx (correction_step_fl rnd C state c cv n) acc = Inr acc'"
proof -
  have step: "\<exists>s'. correction_step_fl rnd C state c cv n i s = Inr s' \<and> length s' = length state"
    if "i \<in> set idx" "length s = length state" for i s
  proof -
    obtain u where u: "unclamped_correction_fl rnd C c cv n (state ! i) = Inr u"
      using unclamped_correction_fl_total [where rnd = rnd, OF assms(3)] by blast
    show ?thesis
      using assms(1) [OF that(1)] that(2)
      by (simp add: correction_step_fl_def js_get_in_range u
          clamp_correction_fl_value [OF assms(4)])
  qed
  show ?thesis
    using for_of_invariant [of "\<lambda>s. length s = length state" acc idx
        "correction_step_fl rnd C state c cv n", OF assms(2) step]
    by auto
qed

lemma rosetteLaw_fl_total:
  assumes "\<And>i. i \<in> set (petalIdx C) \<Longrightarrow> i < length state"
    "rnd (1 / 10 ^ 9) \<noteq> 0" "0 \<le> a_max C"
  shows "\<exists>acc. rosetteLaw_fl rnd C state t = Inr acc"
proof -
  obtain frame where frame: "ring_frame_fl rnd (petalIdx C) state = Inr frame"
    using ring_frame_fl_total [where rnd = rnd and idx = "petalIdx C" and state = state] assms(1)
    by auto
  show ?thesis
  proof (cases frame)
    case None
    then show ?thesis by (simp add: rosetteLaw_fl_def Let_def frame)
  next
    case (Some f)
    obtain c cv n where f: "f = (c, cv, n)" by (cases f) auto
    show ?thesis
      using correction_loop_fl_total [where rnd = rnd and C = C and state = state
          and idx = "petalIdx C" and acc = "replicate (length state) (vec 0 0 0)"
          and c = c and cv = cv and n = n] assms
      by (simp add: rosetteLaw_fl_def Let_def frame Some f)
  qed
qed

lemma rosetteLaw_fl_out_of_range:
  assumes "\<exists>i \<in> set (petalIdx C). \<not> i < length state"
  shows "rosetteLaw_fl rnd C state t = Inl TypeError"
proof -
  have "petalIdx C \<noteq> []" using assms by auto
  then show ?thesis
    using assms by (simp add: rosetteLaw_fl_def Let_def ring_frame_fl_out_of_range)
qed

lemma rosetteLaw_fl_no_zero_divisor:
  assumes "rnd (1 / 10 ^ 9) \<noteq> 0" "0 \<le> a_max C"
  shows "rosetteLaw_fl rnd C state t \<noteq> Inl ZeroDivisor"
proof (cases "\<forall>i \<in> set (petalIdx C). i < length state")
  case True
  then show ?thesis
    using rosetteLaw_fl_total [where rnd = rnd and C = C and state = state and t = t] assms by auto
next
  case False
  then show ?thesis
    using rosetteLaw_fl_out_of_range [where rnd = rnd and C = C and state = state and t = t] by simp
qed


section \<open>The claims\<close>

text \<open>
  C1. Let \<open>C\<close> be the controller built from \<open>initialBodies\<close>. Whatever the state and the
  elapsed time, a correction sequence returned by the law has one entry per body of the
  state, and the entry is \<open>(0, 0, 0)\<close> at every index that is not the index of an initial
  body whose name starts with \<open>Petal\<close>. When no initial body is a petal the law returns
  the all-zero sequence, and it returns a sequence whenever the state is at least as long as
  the initial snapshot.
\<close>

theorem rosetteLaw_zero_outside_ring:
  assumes "makeRosetteController zeros initialBodies = Inr C"
  shows "(\<forall>acc. rosetteLaw C state t = Inr acc \<longrightarrow>
            length acc = length state \<and>
            (\<forall>i < length state.
               \<not> (i < length initialBodies \<and> startsWith (name (initialBodies ! i)) ''Petal'')
               \<longrightarrow> acc ! i = vec 0 0 0))
       \<and> (ring_members initialBodies = [] \<longrightarrow>
            rosetteLaw C state t = Inr (replicate (length state) (vec 0 0 0)))
       \<and> (length initialBodies \<le> length state \<longrightarrow> (\<exists>acc. rosetteLaw C state t = Inr acc))"
proof (intro conjI allI impI)
  note f = makeRosetteController_fields [OF assms]
  have cap: "0 \<le> a_max C" by (simp add: f)
  fix acc assume res: "rosetteLaw C state t = Inr acc"
  show "length acc = length state"
    by (rule rosetteLaw_result_nth(1) [OF cap res])
  fix i assume i: "i < length state"
    and out: "\<not> (i < length initialBodies \<and> startsWith (name (initialBodies ! i)) ''Petal'')"
  from out have "i \<notin> set (petalIdx C)" by (simp add: f petalIdx_of_set)
  then show "acc ! i = vec 0 0 0"
    using rosetteLaw_result_nth(2) [OF cap res i] by simp
next
  note f = makeRosetteController_fields [OF assms]
  assume "ring_members initialBodies = []"
  then have "petalIdx C = []"
    using petalIdx_of_members [of initialBodies] by (simp add: f)
  then show "rosetteLaw C state t = Inr (replicate (length state) (vec 0 0 0))"
    by (simp add: rosetteLaw_def)
next
  note f = makeRosetteController_fields [OF assms]
  assume "length initialBodies \<le> length state"
  then have "\<And>i. i \<in> set (petalIdx C) \<Longrightarrow> i < length state"
    using petalIdx_of_in_range [of _ initialBodies] by (fastforce simp: f)
  then show "\<exists>acc. rosetteLaw C state t = Inr acc"
    using rosetteLaw_value [of C state t] by (simp add: f)
qed

theorem rosetteLaw_zero_outside_ring_witness:
  "makeRosetteController positive_zeros example_ring = Inr example_controller
   \<and> rosetteLaw example_controller example_state 0
       = Inr [vec 0 0 0, vec (- (4 / 100)) 0 0, vec (4 / 100) 0 0]
   \<and> \<not> startsWith (name (example_ring ! 0)) ''Petal''
   \<and> [vec 0 0 0, vec (- (4 / 100)) 0 0, vec (4 / 100) 0 0] ! 0 = vec 0 0 0
   \<and> length example_ring \<le> length example_state
   \<and> ring_members [] = []
   \<and> rosetteLaw \<lparr>petalIdx = [], rStar = 12, omegaStar = 0,
          k_r = 8 / 100, k_dr = 18 / 100, k_t = 12 / 100, k_dt = 8 / 100,
          k_c = 2 / 100, a_max = 4 / 100\<rparr> example_state 0
       = Inr [vec 0 0 0, vec 0 0 0, vec 0 0 0]"
  using rosetteLaw_zero_outside_ring [OF makeRosetteController_example, of example_state 0]
    rosetteLaw_zero_outside_ring [OF makeRosetteController_empty, of example_state 0]
  by (simp add: makeRosetteController_example rosetteLaw_example)
     (simp add: example_ring_def example_state_def startsWith_def ring_members_def numeral_3_eq_3)




text \<open>
  C3. When the ring is not empty and its members have positive mass, the factory succeeds
  and \<open>rStar\<close> is the sum of \<open>mass * |position|\<close> over the members divided by the sum of
  their masses, with \<open>|position|\<close> the Euclidean norm in three dimensions.
\<close>

theorem rStar_mass_weighted_mean_radius:
  assumes "ring_members initialBodies \<noteq> []"
    and "\<forall>b \<in> set (ring_members initialBodies). 0 < mass b"
  shows "\<exists>C. makeRosetteController zeros initialBodies = Inr C
           \<and> rStar C = sum_list (map (\<lambda>b. mass b * magnitude (position b)) (ring_members initialBodies))
                        / sum_list (map mass (ring_members initialBodies))"
  using ring_mass_pos [OF assms] by (simp add: makeRosetteController_value)

theorem rStar_mass_weighted_mean_radius_witness:
  "length (ring_members example_ring) = 2
   \<and> mass (ring_members example_ring ! 0) = 1 \<and> mass (ring_members example_ring ! 1) = 1
   \<and> makeRosetteController positive_zeros example_ring = Inr example_controller
   \<and> rStar example_controller = 1
   \<and> sum_list (map (\<lambda>b. mass b * magnitude (position b)) (ring_members example_ring))
       / sum_list (map mass (ring_members example_ring)) = 1"
  using rStar_mass_weighted_mean_radius [OF example_ring_nonempty example_ring_positive]
  by (simp add: makeRosetteController_example example_controller_fields)
     (simp add: example_ring_members)




text \<open>
  C5. For a state that holds every ring index and whose ring has positive total mass, and
  for every ring member \<open>i\<close>: the acceleration the loop body computes before the cap is
  \<open>pd_correction\<close>, that is \<open>a\<^sub>r r_hat + a\<^sub>t t_hat - k_c v\<close> with
  \<open>a\<^sub>r = k_r (rStar - r) - k_dr v\<^sub>r\<close> and \<open>a\<^sub>t = k_t (omegaStar r - v\<^sub>t) - k_dt v\<^sub>t\<close>,
  taken in the frame of the ring's mass-weighted centroid, centroid velocity and
  angular-momentum normal; and entry \<open>i\<close> of the returned sequence is that acceleration
  after the cap.
\<close>

theorem correction_before_clamp:
  assumes "makeRosetteController zeros initialBodies = Inr C"
    and "\<forall>i \<in> set (petalIdx C). i < length state"
    and "0 < ring_mass state (petalIdx C)"
    and "i \<in> set (petalIdx C)"
  shows "\<exists>acc. rosetteLaw C state t = Inr acc
           \<and> unclamped_correction C (ring_centroid state (petalIdx C))
                 (ring_centroid_velocity state (petalIdx C))
                 (ring_normal state (petalIdx C)) (state ! i)
               = Inr (pd_correction C (ring_centroid state (petalIdx C))
                        (ring_centroid_velocity state (petalIdx C))
                        (ring_normal state (petalIdx C)) (state ! i))
           \<and> clamp_correction C (pd_correction C (ring_centroid state (petalIdx C))
                        (ring_centroid_velocity state (petalIdx C))
                        (ring_normal state (petalIdx C)) (state ! i))
               = Inr (acc ! i)"
proof -
  note f = makeRosetteController_fields [OF assms(1)]
  have cap: "0 \<le> a_max C" by (simp add: f)
  obtain acc where res: "rosetteLaw C state t = Inr acc"
    using rosetteLaw_value [of C state t] cap assms(2) by auto
  have i': "i < length state" using assms by simp
  have "acc ! i = member_correction C state i"
    using rosetteLaw_result_nth(2) [OF cap res i'] assms by simp
  then show ?thesis
    using res by (simp add: unclamped_correction_value clamp_correction_value [OF cap]
        member_correction_def)
qed

theorem correction_before_clamp_witness:
  "makeRosetteController positive_zeros example_ring = Inr example_controller
   \<and> petalIdx example_controller = [1, 2] \<and> length example_state = 3
   \<and> ring_mass example_state (petalIdx example_controller) = 2
   \<and> rosetteLaw example_controller example_state 0
       = Inr [vec 0 0 0, vec (- (4 / 100)) 0 0, vec (4 / 100) 0 0]
   \<and> pd_correction example_controller (ring_centroid example_state (petalIdx example_controller))
         (ring_centroid_velocity example_state (petalIdx example_controller))
         (ring_normal example_state (petalIdx example_controller)) (example_state ! 2)
       = vec (8 / 100) 0 0
   \<and> clamp_correction example_controller (vec (8 / 100) 0 0) = Inr (vec (4 / 100) 0 0)"
  using correction_before_clamp [OF makeRosetteController_example example_in_range
      example_ring_mass, of 2 0]
  by (simp add: makeRosetteController_example rosetteLaw_example example_controller_fields
      example_state_length example_frame example_unclamped)

text \<open>
  C6, as amended. No evaluation of the law divides by zero, whatever the state: the result
  is never \<open>ZeroDivisor\<close>, and a state at least as long as the initial snapshot always
  yields a correction sequence. For a state that holds the ring indices and has positive ring
  mass, the frame divides the angular momentum by its magnitude, and by 1 when it is exactly
  the zero vector. The loop body divides the centroid-relative position by its magnitude, and
  by \<open>10\<^sup>-\<^sup>9\<close> when it is exactly the zero vector; it treats the tangential direction in
  the same way; the radial divisor is positive, and both the loop body and the cap return a
  value for every input. A magnitude that is small and not zero is used as it is. The same
  holds of the divisions with any rounding of the operations under which \<open>1e-9\<close> does not
  round to zero, for any controller with the ring indices of \<open>C\<close> and a cap that is not
  negative, whatever its other constants: no division by zero, and a correction sequence for
  every state at least as long as the initial snapshot. Nothing is said of values that
  overflow.
\<close>

theorem rosetteLaw_never_divides_by_zero:
  assumes "makeRosetteController zeros initialBodies = Inr C"
  shows "rosetteLaw C state t \<noteq> Inl ZeroDivisor
       \<and> (length initialBodies \<le> length state \<longrightarrow> (\<exists>acc. rosetteLaw C state t = Inr acc))
       \<and> ((\<forall>i \<in> set (petalIdx C). i < length state) \<and> 0 < ring_mass state (petalIdx C) \<longrightarrow>
            ring_frame (petalIdx C) state
              = Inr (Some (ring_centroid state (petalIdx C),
                           ring_centroid_velocity state (petalIdx C),
                           scale (1 / (if ring_angular_momentum state (petalIdx C) = vec 0 0 0
                                       then 1
                                       else magnitude (ring_angular_momentum state (petalIdx C))))
                             (ring_angular_momentum state (petalIdx C)))))
       \<and> (\<forall>c cv n b.
             unclamped_correction C c cv n b = Inr (pd_correction C c cv n b)
             \<and> radial_distance c b
                 = (if vsub (position b) c = vec 0 0 0 then 1 / 10 ^ 9
                    else magnitude (vsub (position b) c))
             \<and> 0 < radial_distance c b
             \<and> r_hat c b = scale (1 / radial_distance c b) (vsub (position b) c)
             \<and> t_hat c n b
                 = scale (1 / (if cross n (r_hat c b) = vec 0 0 0 then 1 / 10 ^ 9
                               else magnitude (cross n (r_hat c b))))
                     (cross n (r_hat c b)))
       \<and> (\<forall>u. \<exists>a. clamp_correction C u = Inr a)
       \<and> (\<forall>rnd C'. petalIdx C' = petalIdx C \<and> rnd (1 / 10 ^ 9) \<noteq> 0 \<and> 0 \<le> a_max C' \<longrightarrow>
            rosetteLaw_fl rnd C' state t \<noteq> Inl ZeroDivisor
            \<and> (length initialBodies \<le> length state \<longrightarrow>
                 (\<exists>acc. rosetteLaw_fl rnd C' state t = Inr acc)))"
proof -
  note f = makeRosetteController_fields [OF assms]
  have cap: "0 \<le> a_max C" by (simp add: f)
  have no_div: "rosetteLaw C state t \<noteq> Inl ZeroDivisor"
    using rosetteLaw_cases [OF cap, of state t] by auto
  have total: "\<exists>acc. rosetteLaw C state t = Inr acc" if "length initialBodies \<le> length state"
  proof -
    have "\<And>i. i \<in> set (petalIdx C) \<Longrightarrow> i < length state"
      using that petalIdx_of_in_range [of _ initialBodies] by (fastforce simp: f)
    then show ?thesis
      using rosetteLaw_value [of C state t] cap by simp
  qed
  have frame: "ring_frame (petalIdx C) state
              = Inr (Some (ring_centroid state (petalIdx C),
                           ring_centroid_velocity state (petalIdx C),
                           scale (1 / (if ring_angular_momentum state (petalIdx C) = vec 0 0 0
                                       then 1
                                       else magnitude (ring_angular_momentum state (petalIdx C))))
                             (ring_angular_momentum state (petalIdx C))))"
    if "(\<forall>i \<in> set (petalIdx C). i < length state) \<and> 0 < ring_mass state (petalIdx C)"
    using that ring_frame_value [of "petalIdx C" state]
    by (simp add: ring_normal_def Let_def or_else_magnitude)
  have body: "\<forall>c cv n b.
             unclamped_correction C c cv n b = Inr (pd_correction C c cv n b)
             \<and> radial_distance c b
                 = (if vsub (position b) c = vec 0 0 0 then 1 / 10 ^ 9
                    else magnitude (vsub (position b) c))
             \<and> 0 < radial_distance c b
             \<and> r_hat c b = scale (1 / radial_distance c b) (vsub (position b) c)
             \<and> t_hat c n b
                 = scale (1 / (if cross n (r_hat c b) = vec 0 0 0 then 1 / 10 ^ 9
                               else magnitude (cross n (r_hat c b))))
                     (cross n (r_hat c b))"
    using radial_distance_cases radial_distance_pos t_hat_cases
    by (simp add: unclamped_correction_value r_hat_def normalize_def radial_distance_def)
  have clamp: "\<forall>u. \<exists>a. clamp_correction C u = Inr a"
    by (simp add: clamp_correction_value [OF cap])
  have rounded: "rosetteLaw_fl rnd C' state t \<noteq> Inl ZeroDivisor
            \<and> (length initialBodies \<le> length state \<longrightarrow>
                 (\<exists>acc. rosetteLaw_fl rnd C' state t = Inr acc))"
    if h: "petalIdx C' = petalIdx C \<and> rnd (1 / 10 ^ 9) \<noteq> 0 \<and> 0 \<le> a_max C'" for rnd C'
  proof -
    have idx: "petalIdx C' = petalIdx C" and eps: "rnd (1 / 10 ^ 9) \<noteq> 0"
      and cap': "0 \<le> a_max C'"
      using h by simp_all
    have "rosetteLaw_fl rnd C' state t \<noteq> Inl ZeroDivisor"
      by (rule rosetteLaw_fl_no_zero_divisor [where rnd = rnd, OF eps cap'])
    moreover have "\<exists>acc. rosetteLaw_fl rnd C' state t = Inr acc"
      if "length initialBodies \<le> length state"
    proof -
      have "\<And>i. i \<in> set (petalIdx C') \<Longrightarrow> i < length state"
        using that petalIdx_of_in_range [of _ initialBodies]
        by (fastforce simp: f idx)
      then show ?thesis
        by (rule rosetteLaw_fl_total [where rnd = rnd, OF _ eps cap'])
    qed
    ultimately show ?thesis by simp
  qed
  show ?thesis
    by (intro conjI impI allI no_div total frame body [rule_format] clamp [rule_format]
        rounded [THEN conjunct1] rounded [THEN conjunct2, rule_format]) simp_all
qed

theorem rosetteLaw_never_divides_by_zero_witness:
  "makeRosetteController positive_zeros example_ring = Inr example_controller
   \<and> length example_ring \<le> length example_state
   \<and> petalIdx example_controller = [1, 2] \<and> length example_state = 3
   \<and> ring_mass example_state (petalIdx example_controller) = 2
   \<and> ring_angular_momentum example_state (petalIdx example_controller) = vec 0 0 0
   \<and> ring_frame (petalIdx example_controller) example_state
       = Inr (Some (vec 0 0 0, vec 0 0 0, vec 0 0 0))
   \<and> vsub (position (example_state ! 0)) (vec 0 0 0) = vec 0 0 0
   \<and> radial_distance (vec 0 0 0) (example_state ! 0) = 1 / 10 ^ 9
   \<and> cross (vec 0 0 0) (r_hat (vec 0 0 0) (example_state ! 1)) = vec 0 0 0
   \<and> t_hat (vec 0 0 0) (vec 0 0 0) (example_state ! 1) = vec 0 0 0
   \<and> rosetteLaw example_controller example_state 0
       = Inr [vec 0 0 0, vec (- (4 / 100)) 0 0, vec (4 / 100) 0 0]
   \<and> petalIdx (rounded_gains binary64 example_controller) = petalIdx example_controller
   \<and> binary64 (1 / 10 ^ 9) \<noteq> 0 \<and> 0 \<le> a_max (rounded_gains binary64 example_controller)
   \<and> length example_ring \<le> length example_far_state
   \<and> rosetteLaw_fl binary64 (rounded_gains binary64 example_controller) example_far_state 0
       = Inr [vec 0 0 0, vec (- (1441151880758559 / 36028797018963968)) 0 0,
              vec (1441151880758559 / 36028797018963968) 0 0]"
proof -
  have p0: "example_state ! 0
            = \<lparr>name = ''Core'', mass = 10, position = vec 0 0 0, velocity = vec 0 0 0\<rparr>"
    by (simp add: example_state_def)
  have z: "vsub (position (example_state ! 0)) (vec 0 0 0) = vec 0 0 0"
    unfolding p0 by (simp add: vsub_def)
  have cr: "cross (vec 0 0 0) v = vec 0 0 0" for v
    by (simp add: cross_def)
  have sc: "scale k (vec 0 0 0) = vec 0 0 0" for k
    by (simp add: scale_def)
  have len: "length example_ring \<le> length example_state"
    by (simp add: example_ring_def example_state_def)
  have far: "petalIdx (rounded_gains binary64 example_controller) = petalIdx example_controller
      \<and> binary64 (1 / 10 ^ 9) \<noteq> 0 \<and> 0 \<le> a_max (rounded_gains binary64 example_controller)
      \<and> length example_ring \<le> length example_far_state"
    by (simp add: binary64_gains example_controller_fields example_ring_def example_far_bodies
        rounded_gains_fields)
  show ?thesis
    using rosetteLaw_never_divides_by_zero [OF makeRosetteController_example [of positive_zeros],
        of example_state 0]
      rosetteLaw_never_divides_by_zero [OF makeRosetteController_example [of positive_zeros],
        of example_far_state 0]
      example_in_range example_ring_mass len far rosetteLaw_fl_example_far [of 0]
    by (simp add: makeRosetteController_example rosetteLaw_example example_controller_fields
        example_state_length example_frame z cr sc)
qed

text \<open>
  The claim as first stated has near-zero norms fall back to the floor. With the petals at
  rest at \<open>(\<plusminus>10\<^sup>-\<^sup>1\<^sup>2, 0, 0)\<close> the centroid is the origin, the radial norm of the first petal
  is \<open>10\<^sup>-\<^sup>1\<^sup>2\<close>, below the floor \<open>10\<^sup>-\<^sup>9\<close>, and the loop body divides by it: the radial unit
  vector is \<open>(1, 0, 0)\<close> and the acceleration before the cap is \<open>k_r (1 - 10\<^sup>-\<^sup>1\<^sup>2)\<close> along it.
\<close>

theorem near_zero_radius_not_floored_counterexample:
  "ring_frame (petalIdx example_controller) example_tight_state
     = Inr (Some (vec 0 0 0, vec 0 0 0, vec 0 0 0))
   \<and> magnitude (vsub (position (example_tight_state ! 1)) (vec 0 0 0)) = 1 / 10 ^ 12
   \<and> radial_distance (vec 0 0 0) (example_tight_state ! 1) = 1 / 10 ^ 12
   \<and> (1 :: real) / 10 ^ 12 < 1 / 10 ^ 9
   \<and> unclamped_correction example_controller (vec 0 0 0) (vec 0 0 0) (vec 0 0 0)
         (example_tight_state ! 1)
       = Inr (vec (8 / 100 * (1 - 1 / 10 ^ 12)) 0 0)"
proof -
  have range: "\<And>i. i \<in> set (petalIdx example_controller) \<Longrightarrow> i < length example_tight_state"
    by (auto simp: example_controller_fields example_tight_state_def)
  have frame: "ring_frame (petalIdx example_controller) example_tight_state
     = Inr (Some (vec 0 0 0, vec 0 0 0, vec 0 0 0))"
    using ring_frame_value [of "petalIdx example_controller" example_tight_state, OF range]
    by (simp add: example_controller_fields example_tight_frame)
  have p1: "example_tight_state ! 1
            = \<lparr>name = ''Petal 1'', mass = 1, position = vec (1 / 10 ^ 12) 0 0, velocity = vec 0 0 0\<rparr>"
    by (simp add: example_tight_state_def)
  have mag: "magnitude (vsub (position (example_tight_state ! 1)) (vec 0 0 0)) = 1 / 10 ^ 12"
    unfolding p1 by (simp add: vsub_def magnitude_def)
  have rd: "radial_distance (vec 0 0 0) (example_tight_state ! 1) = 1 / 10 ^ 12"
    unfolding radial_distance_def mag by (simp add: or_else_def)
  have "pd_correction example_controller (vec 0 0 0) (vec 0 0 0) (vec 0 0 0) (example_tight_state ! 1)
        = vec (8 / 100 * (1 - 1 / 10 ^ 12)) 0 0"
    unfolding p1
    by (simp add: pd_correction_def radial_distance_def r_hat_def t_hat_def normalize_def
        vsub_def vadd_def scale_def cross_def dot_def magnitude_def or_else_def
        example_controller_def)
  then show ?thesis
    using frame mag rd by (simp add: unclamped_correction_value)
qed

text \<open>
  C7. On the heap, for a state whose bodies are allocated: the values the law returns are
  those of \<open>rosetteLaw\<close> on the values of the bodies, so they depend on the controller's
  constants and on the values of the state alone; an evaluation leaves every body object and
  every vector object that existed before it unchanged, the input state among them; and after
  any sequence of further evaluations, on any states and times, the law returns the same
  values for the same state. Two states with equal values, in whatever heaps, get equal
  results.
\<close>

theorem rosetteLaw_stateless_deterministic:
  assumes "state_allocated h state"
  shows "returned_values C state t (evaluations C calls h) = returned_values C state t h
       \<and> returned_values C state t h = rosetteLaw C (snapshot h state) t
       \<and> snapshot (snd (rosetteLaw_heap C state t h)) state = snapshot h state
       \<and> same_below (next_free h) h (snd (rosetteLaw_heap C state t h))
       \<and> same_below (next_free h) h (evaluations C calls h)
       \<and> (\<forall>h' state'. state_allocated h' state' \<and> snapshot h' state' = snapshot h state \<longrightarrow>
             returned_values C state' t h' = returned_values C state t h)"
proof (intro conjI allI impI)
  have fr: "same_below (next_free h) h (evaluations C calls h)"
    "next_free h \<le> next_free (evaluations C calls h)"
    using evaluations_frame [of h C calls] by simp_all
  have alloc': "state_allocated (evaluations C calls h) state"
    by (rule state_allocated_same_below [OF assms fr])
  have "snapshot (evaluations C calls h) state = snapshot h state"
    by (rule snapshot_same_below [OF assms fr(1) order_refl])
  then show "returned_values C state t (evaluations C calls h) = returned_values C state t h"
    by (simp add: rosetteLaw_heap_refines [OF alloc'] rosetteLaw_heap_refines [OF assms])
  show "same_below (next_free h) h (evaluations C calls h)" by (rule fr(1))
next
  show "returned_values C state t h = rosetteLaw C (snapshot h state) t"
    by (rule rosetteLaw_heap_refines [OF assms])
next
  have one: "same_below (next_free h) h (snd (rosetteLaw_heap C state t h))"
    using rosetteLaw_heap_frame [of h C state t] by simp
  then show "same_below (next_free h) h (snd (rosetteLaw_heap C state t h))" .
  show "snapshot (snd (rosetteLaw_heap C state t h)) state = snapshot h state"
    by (rule snapshot_same_below [OF assms one order_refl])
next
  fix h' state'
  assume "state_allocated h' state' \<and> snapshot h' state' = snapshot h state"
  then show "returned_values C state' t h' = returned_values C state t h"
    by (simp add: rosetteLaw_heap_refines assms)
qed

theorem rosetteLaw_stateless_deterministic_witness:
  "state_allocated example_heap example_refs
   \<and> returned_values example_controller example_refs 7
        (evaluations example_controller [(example_refs, 0), ([], 1), (example_refs, 2)] example_heap)
       = Inr [vec 0 0 0, vec (- (4 / 100)) 0 0, vec (4 / 100) 0 0]
   \<and> returned_values example_controller example_refs 7 example_heap
       = Inr [vec 0 0 0, vec (- (4 / 100)) 0 0, vec (4 / 100) 0 0]
   \<and> snapshot (snd (rosetteLaw_heap example_controller example_refs 7 example_heap)) example_refs
       = example_state"
  using rosetteLaw_stateless_deterministic [OF example_heap_allocated,
      of example_controller 7 "[(example_refs, 0), ([], 1), (example_refs, 2)]"]
  by (simp add: example_heap_allocated example_heap_snapshot rosetteLaw_example)

text \<open>
  C8, as amended. For a state of length \<open>n\<close> that holds every ring index, the law returns
  exactly \<open>n\<close> entries, and entry \<open>i\<close> is the correction of body \<open>i\<close>: the capped
  correction computed from \<open>state ! i\<close> for a ring member (when the ring's total mass is
  positive), zero otherwise. Every state at least as long as the initial snapshot holds every
  ring index. For a state that misses a ring index the evaluation throws \<open>TypeError\<close>.
\<close>

theorem rosetteLaw_index_aligned:
  assumes "makeRosetteController zeros initialBodies = Inr C"
  shows "((\<forall>i \<in> set (petalIdx C). i < length state) \<longrightarrow>
            (\<exists>acc. rosetteLaw C state t = Inr acc \<and> length acc = length state
               \<and> (\<forall>i < length state.
                     acc ! i = (if i \<in> set (petalIdx C) \<and> 0 < ring_mass state (petalIdx C)
                                then member_correction C state i else vec 0 0 0))))
       \<and> (length initialBodies \<le> length state \<longrightarrow> (\<forall>i \<in> set (petalIdx C). i < length state))
       \<and> (\<not> (\<forall>i \<in> set (petalIdx C). i < length state) \<longrightarrow>
            rosetteLaw C state t = Inl TypeError)"
proof (intro conjI impI)
  note f = makeRosetteController_fields [OF assms]
  have cap: "0 \<le> a_max C" by (simp add: f)
  {
    assume range: "\<forall>i \<in> set (petalIdx C). i < length state"
    obtain acc where res: "rosetteLaw C state t = Inr acc"
      using rosetteLaw_value [of C state t] cap range by auto
    show "\<exists>acc. rosetteLaw C state t = Inr acc \<and> length acc = length state
               \<and> (\<forall>i < length state.
                     acc ! i = (if i \<in> set (petalIdx C) \<and> 0 < ring_mass state (petalIdx C)
                                then member_correction C state i else vec 0 0 0))"
      using rosetteLaw_result_nth [OF cap res] res by blast
  }
  {
    assume "length initialBodies \<le> length state"
    then show "\<forall>i \<in> set (petalIdx C). i < length state"
      using petalIdx_of_in_range [of _ initialBodies] by (fastforce simp: f)
  }
  {
    assume out: "\<not> (\<forall>i \<in> set (petalIdx C). i < length state)"
    then have "petalIdx C \<noteq> []" by auto
    then show "rosetteLaw C state t = Inl TypeError"
      using out rosetteLaw_out_of_range [of C state t] by simp
  }
qed

theorem rosetteLaw_index_aligned_witness:
  "makeRosetteController positive_zeros example_ring = Inr example_controller
   \<and> petalIdx example_controller = [1, 2] \<and> length example_ring = 3
   \<and> length example_long_state = 4
   \<and> rosetteLaw example_controller example_long_state 0
       = Inr [vec 0 0 0, vec (- (4 / 100)) 0 0, vec (4 / 100) 0 0, vec 0 0 0]
   \<and> length example_short_state = 1
   \<and> rosetteLaw example_controller example_short_state 0 = Inl TypeError"
proof -
  have len: "length example_long_state = 4"
    by (simp add: example_long_state_def example_state_def example_short_state_def)
  show ?thesis
    using rosetteLaw_index_aligned [OF makeRosetteController_example, of example_long_state 0]
      rosetteLaw_index_aligned [OF makeRosetteController_example, of example_short_state 0]
    by (simp add: makeRosetteController_example rosetteLaw_example_longer
        example_controller_fields len)
       (simp add: example_ring_def example_short_state_def)
qed

text \<open>
  The claim as first stated, for every length \<open>n\<close>, fails on a state shorter than the
  initial snapshot: with petals at indices 1 and 2 and a state of length 1 the first loop
  reads \<open>state[1].mass\<close> and throws.
\<close>

theorem rosetteLaw_short_state_counterexample:
  "makeRosetteController positive_zeros example_ring = Inr example_controller
   \<and> length example_short_state = 1
   \<and> rosetteLaw example_controller example_short_state 0 = Inl TypeError"
proof -
  have "rosetteLaw example_controller example_short_state 0 = Inl TypeError"
    by (rule rosetteLaw_out_of_range)
       (auto simp: example_controller_def example_short_state_def)
  then show ?thesis
    by (simp add: makeRosetteController_example example_short_state_def)
qed

text \<open>
  C9. For every seed and every \<open>k\<close>, the value produced by call \<open>k + 1\<close> of the generator
  lies in \<open>[0, 1)\<close>: it is an unsigned 32-bit integer divided by 4294967296, and each call
  advances the state by \<open>0x6d2b79f5\<close> modulo \<open>2\<^sup>3\<^sup>2\<close>.
\<close>

theorem createSeededRandom_unit_interval:
  "0 \<le> seededRandom_output seed k \<and> seededRandom_output seed k < 1
   \<and> (\<exists>u::nat. u < 2 ^ 32 \<and> seededRandom_output seed k = real u / 4294967296)
   \<and> unat (seededRandom_state (createSeededRandom seed) (Suc k))
       = (unat (seededRandom_state (createSeededRandom seed) k) + 0x6d2b79f5) mod 2 ^ 32"
proof -
  define s where "s = seededRandom_state (createSeededRandom seed) k"
  obtain w :: u32 where w: "seededRandom_call s = (real (unat w) / 4294967296, s + 0x6d2b79f5)"
    using seededRandom_call_shape by blast
  have out: "\<exists>u::nat. u < 2 ^ 32 \<and> fst (seededRandom_call s) = real u / 4294967296"
    using u32_unat_bound [of w] by (auto simp: w)
  have st: "unat (snd (seededRandom_call s)) = (unat s + 0x6d2b79f5) mod 2 ^ 32"
    by (simp add: w unat_word_ariths)
  show ?thesis
    unfolding seededRandom_output_def s_def [symmetric] seededRandom_state.simps
    using seededRandom_call_range [of s] out st by simp
qed

text \<open>
  C10. \<open>pickRandom\<close> throws exactly when the list is empty. On a non-empty list, with a
  generator whose next value \<open>r\<close> lies in \<open>[0, 1)\<close>, it returns the element at index
  \<open>\<lfloor>r * length items\<rfloor>\<close>, which is a valid index, and that element belongs to the list.
\<close>

theorem pickRandom_throws_iff_empty:
  "((\<exists>e. pickRandom rand g items = Inl e) \<longleftrightarrow> items = [])
   \<and> (items \<noteq> [] \<longrightarrow> 0 \<le> fst (rand g) \<longrightarrow> fst (rand g) < 1 \<longrightarrow>
        pickRandom rand g items
          = Inr (Some (items ! nat \<lfloor>fst (rand g) * real (length items)\<rfloor>), snd (rand g))
        \<and> nat \<lfloor>fst (rand g) * real (length items)\<rfloor> < length items
        \<and> items ! nat \<lfloor>fst (rand g) * real (length items)\<rfloor> \<in> set items)"
proof (intro conjI impI)
  show "(\<exists>e. pickRandom rand g items = Inl e) \<longleftrightarrow> items = []"
    by (simp add: pickRandom_def Let_def split: prod.splits)
next
  assume ne: "items \<noteq> []" and lo: "0 \<le> fst (rand g)" and hi: "fst (rand g) < 1"
  from ne have pos: "0 < length items" by simp
  note idx = floor_scaled_index [OF lo hi pos]
  show "pickRandom rand g items
          = Inr (Some (items ! nat \<lfloor>fst (rand g) * real (length items)\<rfloor>), snd (rand g))"
    using ne idx by (cases "rand g") (simp add: pickRandom_def js_index_def Let_def)
  show in_range: "nat \<lfloor>fst (rand g) * real (length items)\<rfloor> < length items"
    using idx by linarith
  then show "items ! nat \<lfloor>fst (rand g) * real (length items)\<rfloor> \<in> set items"
    by (rule nth_mem)
qed

theorem pickRandom_throws_iff_empty_witness:
  "pickRandom (\<lambda>g::nat. (1/2, Suc g)) 0 [10, 20, 30 :: nat] = Inr (Some 20, 1)
   \<and> (\<exists>e. pickRandom (\<lambda>g::nat. (1/2, Suc g)) 0 ([] :: nat list) = Inl e)"
  using pickRandom_throws_iff_empty [of "\<lambda>g::nat. (1/2, Suc g)" 0 "[10, 20, 30 :: nat]"]
        pickRandom_throws_iff_empty [of "\<lambda>g::nat. (1/2, Suc g)" 0 "[] :: nat list"]
  by simp

end
